theory Spec2Isabelle
  imports Complex_Main "HOL-Library.Sublist" "HOL-Library.AList"
begin

section \<open>Values shared by the modules of dead-or-alive\<close>

subsection \<open>URLs\<close>

text \<open>
  The platform's \<^verbatim>\<open>URL\<close> objects, reduced to what \<^verbatim>\<open>lib/index.js\<close> reads of them:
  \<^verbatim>\<open>href\<close>, \<^verbatim>\<open>hash\<close>, \<^verbatim>\<open>origin\<close> and \<^verbatim>\<open>pathname\<close>. A URL is held as its
  serialization without the fragment (scheme, credentials, host, port, path and query, as
  the URL standard writes them), its origin, its path, and its fragment, which is absent
  (\<open>None\<close>) or present without its \<^verbatim>\<open>#\<close>, possibly empty. As in the URL standard,
  \<^verbatim>\<open>url.href\<close> keeps the \<^verbatim>\<open>#\<close> of a fragment that is present and empty, and
  \<^verbatim>\<open>url.hash\<close> is the empty string for a fragment that is absent or empty.
\<close>

record url =
  without_fragment :: string
  origin :: string
  pathname :: string
  fragment :: "string option"

definition hash :: "url \<Rightarrow> string" where
  "hash u =
     (case fragment u of
        None \<Rightarrow> []
      | Some f \<Rightarrow> if f = [] then [] else CHR ''#'' # f)"

definition href :: "url \<Rightarrow> string" where
  "href u =
     without_fragment u @ (case fragment u of None \<Rightarrow> [] | Some f \<Rightarrow> CHR ''#'' # f)"

text \<open>
  \<^verbatim>\<open>new URL(input)\<close> and \<^verbatim>\<open>new URL(input, base)\<close> belong to the platform, not to
  this repository. The program is modelled over any such parser: a function from the text
  and the optional base to the parsed URL, or to \<open>None\<close> where the constructor throws
  its \<^verbatim>\<open>TypeError\<close>.
\<close>

type_synonym url_parser = "string \<Rightarrow> url option \<Rightarrow> url option"

subsection \<open>Messages and thrown values\<close>

text \<open>
  What JavaScript code of this package can throw: a \<^verbatim>\<open>VFileMessage\<close> built by the
  package, or an error of the platform or of a dependency that the package does not wrap.
\<close>

datatype native_error =
  InvalidUrl string
  | InvalidMediaType string
  | FetchFailed string
  | BodyUnreadable

record vfile_message =
  reason :: string
  ruleId :: string
  source :: string
  message_url :: string
  fatal :: "bool option"
  cause :: "native_error option"

datatype thrown = Message vfile_message | Native native_error

definition documentation :: string where
  "documentation = ''https://github.com/wooorm/dead-or-alive''"

text \<open>
  \<^verbatim>\<open>new VFileMessage(reason, {cause, ruleId, source: 'dead-or-alive'})\<close> followed by
  \<^verbatim>\<open>message.url = documentation + '#' + message.ruleId\<close>. A fresh message has no
  \<^verbatim>\<open>fatal\<close> flag; the throwing paths set it afterwards.
\<close>

definition new_message :: "string \<Rightarrow> string \<Rightarrow> native_error option \<Rightarrow> vfile_message" where
  "new_message text rule c =
     \<lparr>reason = text, ruleId = rule, source = ''dead-or-alive'',
      message_url = documentation @ ''#'' @ rule, fatal = None, cause = c\<rparr>"

section \<open>lib/shared-declarative-refresh.js\<close>

text \<open>
  Strings are lists of characters; \<^verbatim>\<open>input.charCodeAt(position)\<close> is the code of the
  character at that index, and \<^verbatim>\<open>NaN\<close> past the end of the input, modelled as
  \<open>None\<close>: every comparison of the source with \<^verbatim>\<open>NaN\<close> is false, every
  \<^verbatim>\<open>!==\<close> true. The parser compares codes with those of ASCII characters only.
\<close>

definition charCodeAt :: "string \<Rightarrow> nat \<Rightarrow> nat option" where
  "charCodeAt input position =
     (if position < length input then Some (of_char (input ! position)) else None)"

definition asciiDigit :: "nat option \<Rightarrow> bool" where
  "asciiDigit code = (case code of None \<Rightarrow> False | Some c \<Rightarrow> 48 \<le> c \<and> c \<le> 57)"

definition dot :: "nat option \<Rightarrow> bool" where
  "dot code = (code = Some 46)"

definition asciiDigitOrDot :: "nat option \<Rightarrow> bool" where
  "asciiDigitOrDot code = (asciiDigit code \<or> dot code)"

definition asciiWhitespace :: "nat option \<Rightarrow> bool" where
  "asciiWhitespace code =
     (code = Some 9 \<or> code = Some 10 \<or> code = Some 12 \<or> code = Some 13 \<or> code = Some 32)"

definition commaOrSemicolon :: "nat option \<Rightarrow> bool" where
  "commaOrSemicolon code = (code = Some 44 \<or> code = Some 59)"

text \<open>
  The three loops of the source have one shape,
  \<^verbatim>\<open>while (position < input.length && test(input.charCodeAt(position))) position++\<close>,
  and return the new position.
\<close>

function skip_while :: "(nat option \<Rightarrow> bool) \<Rightarrow> string \<Rightarrow> nat \<Rightarrow> nat" where
  "skip_while test input position =
     (if position < length input \<and> test (charCodeAt input position)
      then skip_while test input (Suc position) else position)"
  by pat_completeness auto
termination
  by (relation "measure (\<lambda>(test, input, position). length input - position)") auto

declare skip_while.simps [simp del]

definition skipAsciiWhitespace :: "string \<Rightarrow> nat \<Rightarrow> nat" where
  "skipAsciiWhitespace input position = skip_while asciiWhitespace input position"

text \<open>
  Steps 2 to 10 of the source: the delay and the separator. The result is the position at
  which the URL part starts, or \<open>None\<close> where the source returns \<^verbatim>\<open>undefined\<close>.
\<close>

definition skipTime :: "string \<Rightarrow> nat option" where
  "skipTime input =
     (let position = skipAsciiWhitespace input 0;
          before = position;
          position = skip_while asciiDigit input position
      in if position = before \<and> \<not> dot (charCodeAt input position) then None
         else
           let position = skip_while asciiDigitOrDot input position;
               before = position;
               position =
                 (if position < length input then
                    let position = skipAsciiWhitespace input position;
                        position =
                          (if commaOrSemicolon (charCodeAt input position)
                           then Suc position else position)
                    in skipAsciiWhitespace input position
                  else position)
           in if before = position \<or> position = length input then None
              else Some position)"

fun indexOf :: "nat \<Rightarrow> string \<Rightarrow> nat option" where
  "indexOf code [] = None"
| "indexOf code (c # cs) =
     (if of_char c = code then Some 0 else map_option Suc (indexOf code cs))"

text \<open>
  Steps 11.8 to 11.10. In the source \<^verbatim>\<open>skipQuotes\<close> assigns \<^verbatim>\<open>urlString\<close> and ends
  in \<^verbatim>\<open>return parse()\<close>; here it returns the \<^verbatim>\<open>urlString\<close> that \<^verbatim>\<open>parse\<close>
  receives. \<^verbatim>\<open>quote\<close> is \<open>0\<close> until a quote is seen.
\<close>

definition skipQuotes :: "string \<Rightarrow> nat \<Rightarrow> string" where
  "skipQuotes input position =
     (let code = charCodeAt input position;
          quote = (if code = Some 34 then 34 else if code = Some 39 then 39 else 0);
          position = (if code = Some 34 \<or> code = Some 39 then Suc position else position);
          urlString = drop position input
      in if quote \<noteq> 0 then
           (case indexOf quote urlString of
              None \<Rightarrow> urlString
            | Some index \<Rightarrow> take index urlString)
         else urlString)"

text \<open>
  Steps 11.1 to 11.7, from the position \<^verbatim>\<open>skipTime\<close> reached: the \<^verbatim>\<open>urlString\<close>
  with which the source calls \<^verbatim>\<open>parse()\<close>, directly or through \<^verbatim>\<open>skipQuotes()\<close>.
\<close>

definition urlKeyword :: "string \<Rightarrow> nat \<Rightarrow> string" where
  "urlKeyword input position =
     (let urlString = drop position input;
          code = charCodeAt input position
      in if code \<noteq> Some 85 \<and> code \<noteq> Some 117 then skipQuotes input position
         else
           let position = Suc position;
               code = charCodeAt input position
           in if code \<noteq> Some 82 \<and> code \<noteq> Some 114 then urlString
              else
                let position = Suc position;
                    code = charCodeAt input position
                in if code \<noteq> Some 76 \<and> code \<noteq> Some 108 then urlString
                   else
                     let position = skipAsciiWhitespace input (Suc position)
                     in if charCodeAt input position \<noteq> Some 61 then urlString
                        else skipQuotes input (skipAsciiWhitespace input (Suc position)))"

definition parse :: "url_parser \<Rightarrow> string \<Rightarrow> url \<Rightarrow> thrown + url" where
  "parse new_URL urlString from =
     (case new_URL urlString (Some from) of
        Some u \<Rightarrow> Inr u
      | None \<Rightarrow>
          Inl (Message
            ((new_message
               (''Unexpected invalid URL `'' @ urlString
                 @ ''` in `content` on `meta[http-equiv=refresh] relative to `''
                 @ href from @ ''`'')
               ''shared-declarative-refresh''
               (Some (InvalidUrl urlString)))
             \<lparr>fatal := Some True\<rparr>)))"

text \<open>
  The exported function: \<open>Inr None\<close> is the source's \<^verbatim>\<open>undefined\<close>,
  \<open>Inr (Some u)\<close> the URL it returns and \<open>Inl\<close> the message it throws.
\<close>

definition sharedDeclarativeRefresh :: "url_parser \<Rightarrow> string \<Rightarrow> url \<Rightarrow> thrown + url option" where
  "sharedDeclarativeRefresh new_URL input from =
     (case skipTime input of
        None \<Rightarrow> Inr None
      | Some position \<Rightarrow>
          (case parse new_URL (urlKeyword input position) from of
             Inl e \<Rightarrow> Inl e
           | Inr u \<Rightarrow> Inr (Some u)))"

section \<open>lib/propose.js\<close>

text \<open>
  \<^verbatim>\<open>levenshteinEditDistance\<close> comes from a dependency; \<^verbatim>\<open>propose\<close> is modelled over
  any distance function. The score \<^verbatim>\<open>distance / value.length\<close> is a JavaScript number:
  for a non-empty \<^verbatim>\<open>value\<close> it is the quotient of two integers, held here as a real
  (the quotients of two distances over one length compare as their doubles do, for every
  string the platform can hold); for the empty \<^verbatim>\<open>value\<close> it is \<^verbatim>\<open>Infinity\<close> or
  \<^verbatim>\<open>NaN\<close>, held as \<open>None\<close>, which the test \<^verbatim>\<open>d[1] < relativeThreshold\<close> rejects.
\<close>

type_synonym distance = "string \<Rightarrow> string \<Rightarrow> nat"

type_synonym ValueScoreTuple = "string \<times> real option"

definition relativeThreshold :: real where
  "relativeThreshold = 0.5"

definition max_proposals :: nat where
  "max_proposals = 4"

definition score :: "distance \<Rightarrow> string \<Rightarrow> string \<Rightarrow> ValueScoreTuple" where
  "score levenshteinEditDistance val d =
     (d, if length val = 0 then None
         else Some (real (levenshteinEditDistance val d) / real (length val)))"

text \<open>
  \<^verbatim>\<open>Array.prototype.sort\<close> with the comparator \<^verbatim>\<open>a[1] - b[1]\<close> is a stable sort on
  the score; \<open>sort_key\<close> is the stable insertion sort. The key of a non-finite score is
  immaterial: all scores of one call are finite or none is.
\<close>

definition sort_score :: "ValueScoreTuple \<Rightarrow> real" where
  "sort_score d = (case snd d of None \<Rightarrow> 0 | Some x \<Rightarrow> x)"

definition filter_score :: "ValueScoreTuple \<Rightarrow> bool" where
  "filter_score d = (case snd d of None \<Rightarrow> False | Some x \<Rightarrow> x < relativeThreshold)"

definition pick :: "ValueScoreTuple \<Rightarrow> string" where
  "pick d = fst d"

definition propose :: "distance \<Rightarrow> string \<Rightarrow> string list \<Rightarrow> string list" where
  "propose levenshteinEditDistance val ideas =
     take max_proposals
       (map pick
         (filter filter_score
           (sort_key sort_score
             (map (score levenshteinEditDistance val) ideas))))"

text \<open>The edit distance of Levenshtein, for the examples.\<close>

fun levenshtein :: distance where
  "levenshtein [] ys = length ys"
| "levenshtein xs [] = length xs"
| "levenshtein (x # xs) (y # ys) =
     min (min (Suc (levenshtein xs (y # ys))) (Suc (levenshtein (x # xs) ys)))
         ((if x = y then 0 else 1) + levenshtein xs ys)"

section \<open>The element tree\<close>

text \<open>
  The hast tree that \<^verbatim>\<open>fromHtmlIsomorphic\<close> builds: elements with a tag name,
  properties and children, and the other kinds of node. A property of an HTML element is a
  string, a list of strings (space or comma separated attributes) or a boolean.
\<close>

datatype propval = PStr string | PList "string list" | PBool bool

datatype node =
  Element string "(string \<times> propval) list" "node list"
  | Text string
  | Comment string
  | Doctype
  | Root "node list"

text \<open>
  \<^verbatim>\<open>visit(tree, 'element', visitor)\<close> calls the visitor on every element, parents before
  children, in document order.
\<close>

fun elements :: "node \<Rightarrow> node list" where
  "elements (Element tagName props children) =
     Element tagName props children # concat (map elements children)"
| "elements (Root children) = concat (map elements children)"
| "elements (Text t) = []"
| "elements (Comment t) = []"
| "elements Doctype = []"

fun tagName :: "node \<Rightarrow> string" where
  "tagName (Element t props children) = t"
| "tagName n = []"

fun property :: "node \<Rightarrow> string \<Rightarrow> propval option" where
  "property (Element t props children) key = map_of props key"
| "property n key = None"

text \<open>JavaScript's truthiness and \<^verbatim>\<open>String(value)\<close> on a property that may be absent.\<close>

fun truthy :: "propval option \<Rightarrow> bool" where
  "truthy None = False"
| "truthy (Some (PStr s)) = (s \<noteq> [])"
| "truthy (Some (PList l)) = True"
| "truthy (Some (PBool b)) = b"

fun join :: "string list \<Rightarrow> string" where
  "join [] = []"
| "join [s] = s"
| "join (s # t # l) = s @ '','' @ join (t # l)"

fun String :: "propval option \<Rightarrow> string" where
  "String None = ''undefined''"
| "String (Some (PStr s)) = s"
| "String (Some (PList l)) = join l"
| "String (Some (PBool b)) = (if b then ''true'' else ''false'')"

section \<open>lib/anchors.js\<close>

record anchor =
  systemId :: "node option"
  systemName :: "node option"
  userId :: "node option"
  userName :: "node option"

definition empty_anchor :: anchor where
  "empty_anchor = \<lparr>systemId = None, systemName = None, userId = None, userName = None\<rparr>"

text \<open>
  The \<^verbatim>\<open>Map\<close> from names to anchors, as an association list in insertion order:
  \<open>AList.update\<close> replaces the value of a key in place and appends a new key.
\<close>

type_synonym anchors = "(string \<times> anchor) list"

datatype anchor_type = TypeId | TypeName

definition clobberPrefix :: string where
  "clobberPrefix = ''user-content-''"

definition startsWith :: "string \<Rightarrow> string \<Rightarrow> bool" where
  "startsWith val searchString = (take (length searchString) val = searchString)"

text \<open>The inner function \<^verbatim>\<open>set(type, value, node)\<close> of \<^verbatim>\<open>getAnchors\<close>.\<close>

definition set_anchor :: "bool \<Rightarrow> anchor_type \<Rightarrow> string \<Rightarrow> node \<Rightarrow> anchors \<Rightarrow> anchors" where
  "set_anchor resolveClobberPrefix type val node amap =
     (let user = (startsWith val clobberPrefix \<and> resolveClobberPrefix);
          val = (if user then drop (length clobberPrefix) val else val);
          anchor = (case map_of amap val of None \<Rightarrow> empty_anchor | Some a \<Rightarrow> a);
          anchor =
            (if user then
               (case type of
                  TypeId \<Rightarrow> anchor\<lparr>userId := Some node\<rparr>
                | TypeName \<Rightarrow> anchor\<lparr>userName := Some node\<rparr>)
             else
               (case type of
                  TypeId \<Rightarrow> anchor\<lparr>systemId := Some node\<rparr>
                | TypeName \<Rightarrow> anchor\<lparr>systemName := Some node\<rparr>))
      in AList.update val anchor amap)"

definition visitor :: "bool \<Rightarrow> node \<Rightarrow> anchors \<Rightarrow> anchors" where
  "visitor resolveClobberPrefix node amap =
     (let amap =
            (if truthy (property node ''id'')
             then set_anchor resolveClobberPrefix TypeId (String (property node ''id'')) node amap
             else amap)
      in if tagName node = ''a'' \<and> truthy (property node ''name'')
         then set_anchor resolveClobberPrefix TypeName (String (property node ''name'')) node amap
         else amap)"

definition getAnchors :: "node \<Rightarrow> bool \<Rightarrow> anchors" where
  "getAnchors tree resolveClobberPrefix =
     fold (visitor resolveClobberPrefix) (elements tree) []"

section \<open>lib/index.js\<close>

subsection \<open>The collaborators\<close>

text \<open>
  What \<^verbatim>\<open>fetch\<close> resolves to, reduced to what the program reads: the status, the
  status text, \<^verbatim>\<open>response.url\<close>, the headers \<^verbatim>\<open>location\<close> and
  \<^verbatim>\<open>content-type\<close> (\<open>None\<close> for the \<^verbatim>\<open>null\<close> of \<^verbatim>\<open>headers.get\<close>) and the
  text of the body (\<open>None\<close> where \<^verbatim>\<open>response.text()\<close> rejects).
  \<^verbatim>\<open>response.url\<close> is the serialization of a URL, so \<^verbatim>\<open>new URL(response.url)\<close> is
  that URL; it is held parsed.
\<close>

record response =
  status :: nat
  statusText :: string
  response_url :: url
  location :: "string option"
  content_type :: "string option"
  body :: "string option"

definition ok :: "response \<Rightarrow> bool" where
  "ok r = (200 \<le> status r \<and> status r \<le> 299)"

datatype fetched = Rejected string | Resolved response

text \<open>
  The functions the package imports. A request may be answered differently each time it
  is made, so \<^verbatim>\<open>fetch\<close> takes the number of requests made before it; the headers and
  the timer of the request are part of what this function stands for.
  \<^verbatim>\<open>parse_content_type\<close> is \<^verbatim>\<open>parse(contentType).type\<close> of fast-content-type-parse,
  \<open>None\<close> where it throws; \<^verbatim>\<open>select_meta_refresh\<close> is
  \<^verbatim>\<open>select('meta[http-equiv=refresh]', tree)\<close>; \<^verbatim>\<open>urlAttributes\<close> maps a property
  name to the tag names it applies to (\<open>Some None\<close> for \<^verbatim>\<open>null\<close>, every element).
\<close>

record platform =
  fetch :: "nat \<Rightarrow> url \<Rightarrow> fetched"
  new_URL :: url_parser
  parse_content_type :: "string \<Rightarrow> string option"
  fromHtmlIsomorphic :: "string \<Rightarrow> node"
  select_meta_refresh :: "node \<Rightarrow> node option"
  urlAttributes :: "string \<Rightarrow> string list option option"
  levenshteinEditDistance :: distance

text \<open>
  \<^verbatim>\<open>Intl.ListFormat('en', {style: 'long', type: 'disjunction'})\<close>:
  \<^verbatim>\<open>a\<close>, \<^verbatim>\<open>a or b\<close>, \<^verbatim>\<open>a, b, or c\<close>.
\<close>

fun listFormat_rest :: "string list \<Rightarrow> string" where
  "listFormat_rest [] = []"
| "listFormat_rest [x] = '', or '' @ x"
| "listFormat_rest (x # y # l) = '', '' @ x @ listFormat_rest (y # l)"

fun listFormat :: "string list \<Rightarrow> string" where
  "listFormat [] = []"
| "listFormat [x] = x"
| "listFormat [x, y] = x @ '' or '' @ y"
| "listFormat (x # y # z # l) = x @ listFormat_rest (y # z # l)"

text \<open>A number in a message: its decimal digits.\<close>

function decimal :: "nat \<Rightarrow> string" where
  "decimal n =
     (if n < 10 then [char_of (48 + n)] else decimal (n div 10) @ [char_of (48 + n mod 10)])"
  by pat_completeness auto
termination
  by (relation "measure (\<lambda>n. n)") auto

declare decimal.simps [simp del]

subsection \<open>The state\<close>

text \<open>
  What happened during one call, in order: the requests made, the pauses between tries
  and the bodies read. The program keeps no such record; the list is there for the
  properties that speak of what the program did.
\<close>

datatype event =
  Fetched url
  | Slept nat
  | BodyRead url

fun is_request :: "event \<Rightarrow> bool" where
  "is_request (Fetched u) = True"
| "is_request e = False"

definition requests :: "event list \<Rightarrow> nat" where
  "requests h = length (filter is_request h)"

type_synonym AnchorAllow = "(string \<Rightarrow> bool) \<times> (string \<Rightarrow> bool)"

text \<open>
  The typedef \<^verbatim>\<open>State\<close>, with the record of events as its last field. A regular
  expression of the allowlist is the predicate its \<^verbatim>\<open>test\<close> method computes.
\<close>

record state =
  anchorAllowlist :: "AnchorAllow list"
  checkAnchor :: bool
  findUrls :: bool
  followMetaHttpEquiv :: bool
  maxRedirects :: int
  maxRetries :: int
  messages :: "vfile_message list"
  permanent :: "bool option"
  resolveClobberPrefix :: bool
  redirects :: nat
  retries :: nat
  sleep :: "nat \<Rightarrow> nat"
  timeout :: int
  urls :: "string set option"
  userAgent :: string
  history :: "event list"

definition push :: "vfile_message \<Rightarrow> state \<Rightarrow> state" where
  "push message st = st\<lparr>messages := messages st @ [message]\<rparr>"

definition record_event :: "event \<Rightarrow> state \<Rightarrow> state" where
  "record_event e st = st\<lparr>history := history st @ [e]\<rparr>"

subsection \<open>findUrls\<close>

definition add :: "platform \<Rightarrow> url \<Rightarrow> string \<Rightarrow> string set \<Rightarrow> string set" where
  "add env u val found_urls =
     (case new_URL env val (Some u) of
        None \<Rightarrow> found_urls
      | Some found \<Rightarrow> insert (href found) found_urls)"

fun properties :: "node \<Rightarrow> (string \<times> propval) list" where
  "properties (Element t props children) = props"
| "properties n = []"

definition isElement :: "node \<Rightarrow> string list option \<Rightarrow> bool" where
  "isElement node test = (case test of None \<Rightarrow> True | Some names \<Rightarrow> tagName node \<in> set names)"

definition visit_urls :: "platform \<Rightarrow> url \<Rightarrow> node \<Rightarrow> string set \<Rightarrow> string set" where
  "visit_urls env u node found_urls =
     fold
       (\<lambda>key found_urls.
          (case urlAttributes env key of
             None \<Rightarrow> found_urls
           | Some test \<Rightarrow>
               if isElement node test then
                 (case property node key of
                    Some (PList items) \<Rightarrow> fold (add env u) items found_urls
                  | Some (PStr val) \<Rightarrow> add env u val found_urls
                  | _ \<Rightarrow> found_urls)
               else found_urls))
       (remdups (map fst (properties node))) found_urls"

definition findUrls' :: "platform \<Rightarrow> url \<Rightarrow> node \<Rightarrow> string set" where
  "findUrls' env u tree = fold (visit_urls env u) (elements tree) {}"

subsection \<open>The messages\<close>

definition max_redirect_message :: "url \<Rightarrow> vfile_message" where
  "max_redirect_message u =
     (new_message (''Unexpected redirect to `'' @ href u @ ''`, too many redirects'')
        ''max-redirect'' None)\<lparr>fatal := Some True\<rparr>"

definition fetch_message :: "url \<Rightarrow> string \<Rightarrow> vfile_message" where
  "fetch_message u error =
     (new_message (''Unexpected error fetching `'' @ href u @ ''`'')
        ''fetch'' (Some (FetchFailed error)))\<lparr>fatal := Some True\<rparr>"

definition lost_hash_with_redirect_message :: "url \<Rightarrow> url \<Rightarrow> vfile_message" where
  "lost_hash_with_redirect_message u redirect =
     new_message
       (''Unexpected hash in URL `'' @ href u @ ''` that redirects to `'' @ href redirect
         @ ''` losing the hash, remove the hash from the original URL'')
       ''lost-hash-with-redirect'' None"

definition dead_message :: "response \<Rightarrow> vfile_message" where
  "dead_message r =
     (new_message
        (''Unexpected not ok response `'' @ decimal (status r) @ ''` (`'' @ statusText r
          @ ''`) on `'' @ href (response_url r) @ ''`'')
        ''dead'' None)\<lparr>fatal := Some True\<rparr>"

definition lost_hash_with_meta_message :: "url \<Rightarrow> url \<Rightarrow> vfile_message" where
  "lost_hash_with_meta_message u redirect =
     new_message
       (''Unexpected hash in URL `'' @ href u
         @ ''` that redirects with `meta[http-equiv=refresh] to `'' @ href redirect
         @ ''` losing the hash, remove the hash from the original URL'')
       ''lost-hash-with-meta-http-equiv'' None"

definition missing_anchor_message :: "response \<Rightarrow> string \<Rightarrow> string \<Rightarrow> vfile_message" where
  "missing_anchor_message r frag proposals =
     (new_message
        (''Unexpected missing anchor element on `'' @ href (response_url r)
          @ ''` for fragment `'' @ frag
          @ ''`, remove if unneeded or refer to an existing element''
          @ (if proposals \<noteq> [] then '' such as '' @ proposals else []))
        ''missing-anchor'' None)\<lparr>fatal := Some True\<rparr>"

definition lost_hash_with_non_html_message :: "url \<Rightarrow> string option \<Rightarrow> vfile_message" where
  "lost_hash_with_non_html_message u contentType =
     new_message
       (''Unexpected hash in URL `'' @ href u @ ''` to non-html (`''
         @ (case contentType of None \<Rightarrow> ''undefined'' | Some c \<Rightarrow> c)
         @ ''`) losing the hash, remove the hash from the original URL'')
       ''lost-hash-with-non-html'' None"

subsection \<open>The resolution\<close>

text \<open>
  \<^verbatim>\<open>deadOrAliveInternal\<close> calls itself, directly and through \<^verbatim>\<open>retry\<close> and
  \<^verbatim>\<open>handleTextHtml\<close>, and every such call is the last thing its caller does
  (\<^verbatim>\<open>return deadOrAliveInternal(state, redirect)\<close>, \<^verbatim>\<open>return retry(state, url)\<close>).
  One pass through the body of \<^verbatim>\<open>deadOrAliveInternal\<close> therefore either ends the
  resolution, with the value returned (\<open>Inr\<close>) or thrown (\<open>Inl\<close>) and the state as it
  is then, or ends in the next call of \<^verbatim>\<open>deadOrAliveInternal\<close>, with the state and
  the URL passed to it.
\<close>

datatype step =
  Return "(thrown + url) \<times> state"
  | Again state url

definition retry :: "state \<Rightarrow> url \<Rightarrow> step" where
  "retry st u =
     (let st = st\<lparr>retries := retries st + 1\<rparr>;
          st = record_event (Slept (sleep st (retries st))) st
      in Again st u)"

definition handleUnknown :: "state \<Rightarrow> url \<Rightarrow> response \<Rightarrow> string option \<Rightarrow> (thrown + url) \<times> state" where
  "handleUnknown st u r contentType =
     (let st =
            (if checkAnchor st \<and> hash u \<noteq> []
             then push (lost_hash_with_non_html_message u contentType) st else st)
      in (Inr (response_url r), st))"

text \<open>
  \<^verbatim>\<open>new URL(response.url + url.hash)\<close>: the URL of the response with the hash of the
  request appended to its text. A hash is empty or starts with \<^verbatim>\<open>#\<close>; appended to a
  text without a fragment it becomes the fragment, and appended to a text with one it
  becomes part of it.
\<close>

definition with_hash :: "url \<Rightarrow> string \<Rightarrow> url" where
  "with_hash u h =
     (if h = [] then u
      else
        (case fragment u of
           None \<Rightarrow> u\<lparr>fragment := Some (drop 1 h)\<rparr>
         | Some f \<Rightarrow> u\<lparr>fragment := Some (f @ h)\<rparr>))"

text \<open>
  The setter of \<^verbatim>\<open>hash\<close>, as in \<^verbatim>\<open>result.hash = url.hash\<close>: the empty string
  removes the fragment, another value becomes the fragment, without its leading
  \<^verbatim>\<open>#\<close>.
\<close>

definition set_hash :: "url \<Rightarrow> string \<Rightarrow> url" where
  "set_hash u h =
     (if h = [] then u\<lparr>fragment := None\<rparr>
      else u\<lparr>fragment := Some (if hd h = CHR ''#'' then drop 1 h else h)\<rparr>)"

text \<open>The conditional expression that gives \<^verbatim>\<open>redirect\<close> in \<^verbatim>\<open>handleTextHtml\<close>.\<close>

definition meta_redirect :: "platform \<Rightarrow> node \<Rightarrow> response \<Rightarrow> thrown + url option" where
  "meta_redirect env tree r =
     (case select_meta_refresh env tree of
        None \<Rightarrow> Inr None
      | Some meta \<Rightarrow>
          if truthy (property meta ''content'') then
            sharedDeclarativeRefresh (new_URL env) (String (property meta ''content''))
              (response_url r)
          else Inr None)"

definition anchor_node :: "anchor \<Rightarrow> node option" where
  "anchor_node match =
     (case systemId match of
        Some n \<Rightarrow> Some n
      | None \<Rightarrow>
          (case systemName match of
             Some n \<Rightarrow> Some n
           | None \<Rightarrow> (case userId match of Some n \<Rightarrow> Some n | None \<Rightarrow> userName match)))"

text \<open>
  Lines 407 to 409: \<^verbatim>\<open>match = anchors.get(fragment) || {}\<close> and
  \<^verbatim>\<open>node = match.systemId || match.systemName || match.userId || match.userName\<close>.
\<close>

definition anchor_lookup :: "anchors \<Rightarrow> string \<Rightarrow> node option" where
  "anchor_lookup found_anchors frag =
     (let match = (case map_of found_anchors frag of None \<Rightarrow> empty_anchor | Some a \<Rightarrow> a)
      in anchor_node match)"

text \<open>
  Lines 366 to 384 of \<^verbatim>\<open>handleTextHtml\<close>: the state with which the target of a
  \<^verbatim>\<open>meta\<close> refresh is resolved.
\<close>

definition refreshed :: "state \<Rightarrow> url \<Rightarrow> url \<Rightarrow> state" where
  "refreshed st u redirect =
     (let st =
            (if checkAnchor st \<and> hash u \<noteq> []
             then push (lost_hash_with_meta_message u redirect) st else st);
          st = st\<lparr>permanent := Some False\<rparr>
      in st\<lparr>redirects := redirects st + 1\<rparr>)"

text \<open>
  Lines 394 to 431 of \<^verbatim>\<open>handleTextHtml\<close>: the check of the fragment against the
  allowlist and the anchors of the document.
\<close>

definition check_fragment :: "platform \<Rightarrow> state \<Rightarrow> url \<Rightarrow> response \<Rightarrow> node \<Rightarrow> thrown + url" where
  "check_fragment env st u r tree =
     (let responseUrl = response_url r;
          baseUrl = origin responseUrl @ pathname responseUrl;
          frag = drop 1 (hash u);
          result = set_hash (response_url r) (hash u)
      in if list_ex (\<lambda>(urlRe, fragmentRe). urlRe baseUrl \<and> fragmentRe frag) (anchorAllowlist st)
         then Inr result
         else
           let found_anchors = getAnchors tree (resolveClobberPrefix st);
               node = anchor_lookup found_anchors frag
           in if node \<noteq> None then Inr result
              else
                let proposals =
                      listFormat
                        (map (\<lambda>d. ''`'' @ d @ ''`'')
                          (propose (levenshteinEditDistance env) frag (map fst found_anchors)))
                in Inl (Message (missing_anchor_message r frag proposals)))"

text \<open>Lines 341 to 345: whether the HTML has to be looked at.\<close>

definition needs_html :: "state \<Rightarrow> url \<Rightarrow> bool" where
  "needs_html st u =
     ((checkAnchor st \<and> hash u \<noteq> []) \<or> findUrls st \<or> followMetaHttpEquiv st)"

definition handleTextHtml :: "platform \<Rightarrow> state \<Rightarrow> url \<Rightarrow> response \<Rightarrow> step" where
  "handleTextHtml env st u r =
     (if \<not> needs_html st u
      then Return (Inr (response_url r), st)
      else
        let st = record_event (BodyRead (response_url r)) st
        in (case body r of
             None \<Rightarrow> Return (Inl (Native BodyUnreadable), st)
           | Some text \<Rightarrow>
               let tree = fromHtmlIsomorphic env text
               in (case (if followMetaHttpEquiv st then meta_redirect env tree r else Inr None) of
                    Inl e \<Rightarrow> Return (Inl e, st)
                  | Inr (Some redirect) \<Rightarrow> Again (refreshed st u redirect) redirect
                  | Inr None \<Rightarrow>
                      let st = (if findUrls st then st\<lparr>urls := Some (findUrls' env u tree)\<rparr> else st)
                      in if checkAnchor st \<and> hash u \<noteq> []
                         then Return (check_fragment env st u r tree, st)
                         else Return (Inr (with_hash (response_url r) (hash u)), st))))"

text \<open>
  \<^verbatim>\<open>if (location)\<close>: the header is there and is not the empty string.
\<close>

definition has_location :: "response \<Rightarrow> bool" where
  "has_location r = (location r \<noteq> None \<and> location r \<noteq> Some [])"

text \<open>
  Lines 250 to 272 of \<^verbatim>\<open>deadOrAliveInternal\<close>: the state with which the target of
  an HTTP redirect is resolved.
\<close>

definition redirected :: "state \<Rightarrow> url \<Rightarrow> response \<Rightarrow> url \<Rightarrow> state" where
  "redirected st u r redirect =
     (let st =
            (if status r = 301 \<or> status r = 308
             then (if permanent st = None then st\<lparr>permanent := Some True\<rparr> else st)
             else st\<lparr>permanent := Some False\<rparr>);
          st =
            (if hash u \<noteq> []
             then push (lost_hash_with_redirect_message u redirect) st else st)
      in st\<lparr>redirects := redirects st + 1\<rparr>)"

text \<open>Lines 303 to 313: the dispatch on the content type of a successful response.\<close>

definition handle_content :: "platform \<Rightarrow> state \<Rightarrow> url \<Rightarrow> response \<Rightarrow> step" where
  "handle_content env st u r =
     (let contentType =
            (case content_type r of
               None \<Rightarrow> None
             | Some c \<Rightarrow> if c = [] then None else Some c)
      in (case contentType of
            None \<Rightarrow> Return (handleUnknown st u r contentType)
          | Some c \<Rightarrow>
              (case parse_content_type env c of
                 None \<Rightarrow> Return (Inl (Native (InvalidMediaType c)), st)
               | Some type \<Rightarrow>
                   if type = ''text/html'' then handleTextHtml env st u r
                   else Return (handleUnknown st u r contentType))))"

text \<open>
  One pass through the body of \<^verbatim>\<open>deadOrAliveInternal\<close>. The request is the one
  numbered by the requests made so far.
\<close>

definition attempt :: "platform \<Rightarrow> state \<Rightarrow> url \<Rightarrow> step" where
  "attempt env st u =
     (if int (redirects st) > maxRedirects st
      then Return (Inl (Message (max_redirect_message u)), st)
      else
        (case fetch env (requests (history st)) u of
          Rejected error \<Rightarrow>
            let st = record_event (Fetched u) st
            in if int (retries st) < maxRetries st then retry st u
               else Return (Inl (Message (fetch_message u error)), st)
        | Resolved r \<Rightarrow>
            let st = (record_event (Fetched u) st)\<lparr>retries := 0\<rparr>
            in if 300 \<le> status r \<and> status r < 400 \<and> has_location r
               then
                 (case new_URL env (the (location r)) (Some u) of
                    None \<Rightarrow> Return (Inl (Native (InvalidUrl (the (location r)))), st)
                  | Some redirect \<Rightarrow> Again (redirected st u r redirect) redirect)
               else if \<not> ok r then
                 (if int (retries st) < maxRetries st \<and> (status r < 400 \<or> status r \<ge> 500)
                  then retry st u
                  else Return (Inl (Message (dead_message r)), st))
               else handle_content env st u r))"

text \<open>
  \<^verbatim>\<open>deadOrAliveInternal\<close>, given the number of its calls that are allowed:
  \<open>None\<close> means that the resolution has not ended within that many calls. The source
  has no such number; a resolution that ends does so for every number that is large
  enough, and one that does not end is \<open>None\<close> for every number.
\<close>

type_synonym outcome = "((thrown + url) \<times> state) option"

fun deadOrAliveInternal :: "nat \<Rightarrow> platform \<Rightarrow> state \<Rightarrow> url \<Rightarrow> outcome" where
  "deadOrAliveInternal 0 env st u = None"
| "deadOrAliveInternal (Suc calls) env st u =
     (case attempt env st u of
        Return ended \<Rightarrow> Some ended
      | Again st' u' \<Rightarrow> deadOrAliveInternal calls env st' u')"

subsection \<open>The exported function\<close>

text \<open>
  The typedef \<^verbatim>\<open>Options\<close>: every field may be absent. The numbers of a configuration
  are taken to be integers.
\<close>

record options =
  opt_anchorAllowlist :: "AnchorAllow list option"
  opt_checkAnchor :: "bool option"
  opt_findUrls :: "bool option"
  opt_followMetaHttpEquiv :: "bool option"
  opt_maxRedirects :: "int option"
  opt_maxRetries :: "int option"
  opt_resolveClobberPrefix :: "bool option"
  opt_sleep :: "(nat \<Rightarrow> nat) option"
  opt_timeout :: "int option"
  opt_userAgent :: "string option"

definition emptyOptions :: options where
  "emptyOptions =
     \<lparr>opt_anchorAllowlist = None, opt_checkAnchor = None, opt_findUrls = None,
      opt_followMetaHttpEquiv = None, opt_maxRedirects = None, opt_maxRetries = None,
      opt_resolveClobberPrefix = None, opt_sleep = None, opt_timeout = None,
      opt_userAgent = None\<rparr>"

definition defaultUserAgent :: string where
  "defaultUserAgent =
     ''Mozilla/5.0 (Macintosh; Intel Mac OS X 10_15_7) AppleWebKit/537.36 (KHTML, like Gecko) Chrome/117.0.0.0 Safari/537.36''"

text \<open>
  \<^verbatim>\<open>[[/./, /^:~:/]]\<close>: a URL with a character that is no line terminator, and a
  fragment that starts with \<^verbatim>\<open>:~:\<close>.
\<close>

definition defaultAnchorAllowlist :: "AnchorAllow list" where
  "defaultAnchorAllowlist =
     [(\<lambda>s. list_ex (\<lambda>c. c \<noteq> CHR 0x0A \<and> c \<noteq> CHR 0x0D) s, \<lambda>s. startsWith s '':~:'')]"

definition defaultSleep :: "nat \<Rightarrow> nat" where
  "defaultSleep n = n ^ 3 * 1000"

definition initial_state :: "options option \<Rightarrow> state" where
  "initial_state given =
     (let settings = (case given of None \<Rightarrow> emptyOptions | Some given_options \<Rightarrow> given_options)
      in \<lparr>anchorAllowlist =
            (case opt_anchorAllowlist settings of None \<Rightarrow> defaultAnchorAllowlist | Some l \<Rightarrow> l),
          checkAnchor = (opt_checkAnchor settings \<noteq> Some False),
          findUrls = (opt_findUrls settings \<noteq> Some False),
          followMetaHttpEquiv = (opt_followMetaHttpEquiv settings \<noteq> Some False),
          maxRedirects = (case opt_maxRedirects settings of None \<Rightarrow> 5 | Some n \<Rightarrow> n),
          maxRetries = (case opt_maxRetries settings of None \<Rightarrow> 1 | Some n \<Rightarrow> n),
          messages = [],
          permanent = None,
          resolveClobberPrefix = (opt_resolveClobberPrefix settings \<noteq> Some False),
          redirects = 0,
          retries = 0,
          sleep = (case opt_sleep settings of None \<Rightarrow> defaultSleep | Some f \<Rightarrow> f),
          timeout = (case opt_timeout settings of None \<Rightarrow> 3000 | Some n \<Rightarrow> n),
          urls = None,
          userAgent =
            (case opt_userAgent settings of
               None \<Rightarrow> defaultUserAgent
             | Some a \<Rightarrow> if a = [] then defaultUserAgent else a),
          history = []\<rparr>)"

datatype href_argument = Text_href string | URL_href url

datatype dead_or_alive = Alive | Dead

record result =
  result_messages :: "thrown list"
  result_permanent :: "bool option"
  result_status :: dead_or_alive
  result_url :: "string option"
  result_urls :: "string set option"

text \<open>
  The \<^verbatim>\<open>try\<close> block of \<^verbatim>\<open>deadOrAlive\<close>: the value it yields or the value caught, and
  the state.
\<close>

definition resolve :: "nat \<Rightarrow> platform \<Rightarrow> href_argument \<Rightarrow> options option \<Rightarrow> outcome" where
  "resolve calls env target given =
     (let st = initial_state given
      in case target of
           Text_href s \<Rightarrow>
             (case new_URL env s None of
                None \<Rightarrow> Some (Inl (Native (InvalidUrl s)), st)
              | Some u \<Rightarrow> deadOrAliveInternal calls env st u)
         | URL_href u \<Rightarrow> deadOrAliveInternal calls env st u)"

definition deadOrAlive :: "nat \<Rightarrow> platform \<Rightarrow> href_argument \<Rightarrow> options option \<Rightarrow> result option" where
  "deadOrAlive calls env target given =
     (case resolve calls env target given of
        None \<Rightarrow> None
      | Some (Inr u, st) \<Rightarrow>
          Some \<lparr>result_messages = map Message (messages st),
                result_permanent = permanent st,
                result_status = Alive,
                result_url = Some (href u),
                result_urls = urls st\<rparr>
      | Some (Inl reason_thrown, st) \<Rightarrow>
          Some \<lparr>result_messages = reason_thrown # map Message (messages st),
                result_permanent = permanent st,
                result_status = Dead,
                result_url = None,
                result_urls = urls st\<rparr>)"

section \<open>A URL parser for the examples\<close>

text \<open>
  The theorems below hold for every URL parser. Their examples need one: this parser reads
  \<^verbatim>\<open>https://host/path?query#fragment\<close> and resolves absolute and relative paths
  against a base, which covers the URLs of \<^verbatim>\<open>test.js\<close>. It is not part of the
  package.
\<close>

definition host_char :: "char \<Rightarrow> bool" where
  "host_char c =
     (let n = (of_char c :: nat)
      in (97 \<le> n \<and> n \<le> 122) \<or> (65 \<le> n \<and> n \<le> 90) \<or> (48 \<le> n \<and> n \<le> 57)
         \<or> n = 45 \<or> n = 46 \<or> n = 58)"

definition directory :: "string \<Rightarrow> string" where
  "directory path = rev (dropWhile (\<lambda>c. c \<noteq> CHR ''/'') (rev path))"

definition example_URL :: url_parser where
  "example_URL input base =
     (let no_fragment = takeWhile (\<lambda>c. c \<noteq> CHR ''#'') input;
          frag =
            (if CHR ''#'' \<in> set input
             then Some (drop 1 (dropWhile (\<lambda>c. c \<noteq> CHR ''#'') input)) else None);
          location = takeWhile (\<lambda>c. c \<noteq> CHR ''?'') no_fragment;
          query = dropWhile (\<lambda>c. c \<noteq> CHR ''?'') no_fragment
      in if take 8 location = ''https://'' then
           let rest = drop 8 location;
               host = takeWhile (\<lambda>c. c \<noteq> CHR ''/'') rest;
               path = dropWhile (\<lambda>c. c \<noteq> CHR ''/'') rest
           in if host = [] \<or> \<not> list_all host_char host then None
              else Some \<lparr>without_fragment =
                           ''https://'' @ host @ (if path = [] then ''/'' else path) @ query,
                         origin = ''https://'' @ host,
                         pathname = (if path = [] then ''/'' else path),
                         fragment = frag\<rparr>
         else
           (case base of
              None \<Rightarrow> None
            | Some b \<Rightarrow>
                if location = [] then
                  Some (b\<lparr>without_fragment :=
                            (if query = [] then without_fragment b
                             else origin b @ pathname b @ query),
                          fragment := frag\<rparr>)
                else if hd location = CHR ''/'' then
                  Some \<lparr>without_fragment = origin b @ location @ query,
                        origin = origin b, pathname = location, fragment = frag\<rparr>
                else
                  Some \<lparr>without_fragment = origin b @ directory (pathname b) @ location @ query,
                        origin = origin b, pathname = directory (pathname b) @ location,
                        fragment = frag\<rparr>))"

section \<open>Notions used in the properties\<close>

subsection \<open>The declarative refresh\<close>

definition example_from :: url where
  "example_from =
     \<lparr>without_fragment = ''https://example.com/from'', origin = ''https://example.com'',
      pathname = ''/from'', fragment = None\<rparr>"

definition is_U :: "char \<Rightarrow> bool" where
  "is_U c = (c = CHR ''U'' \<or> c = CHR ''u'')"

definition is_R :: "char \<Rightarrow> bool" where
  "is_R c = (c = CHR ''R'' \<or> c = CHR ''r'')"

definition is_L :: "char \<Rightarrow> bool" where
  "is_L c = (c = CHR ''L'' \<or> c = CHR ''l'')"

definition is_whitespace :: "char \<Rightarrow> bool" where
  "is_whitespace c =
     (c = CHR 0x09 \<or> c = CHR 0x0A \<or> c = CHR 0x0C \<or> c = CHR 0x0D \<or> c = CHR '' '')"

text \<open>
  A text in which the keyword \<^verbatim>\<open>URL\<close> is partially present: it starts with
  \<^verbatim>\<open>U\<close> or \<^verbatim>\<open>u\<close>, and then the next character is not \<^verbatim>\<open>R\<close> or \<^verbatim>\<open>r\<close>, or
  the one after is not \<^verbatim>\<open>L\<close> or \<^verbatim>\<open>l\<close>, or what follows the three letters and any
  whitespace is not \<^verbatim>\<open>=\<close>. The end of the text counts as a character that differs.
\<close>

fun partial_keyword :: "string \<Rightarrow> bool" where
  "partial_keyword [] = False"
| "partial_keyword [u] = is_U u"
| "partial_keyword [u, r] = is_U u"
| "partial_keyword (u # r # l # rest) =
     (is_U u \<and>
       (\<not> is_R r \<or> \<not> is_L l
        \<or> (case dropWhile is_whitespace rest of [] \<Rightarrow> True | c # cs \<Rightarrow> c \<noteq> CHR ''='')))"

subsection \<open>The proposals\<close>

text \<open>The normalized distance of a candidate: its edit distance over the length of the target.\<close>

definition normalized :: "distance \<Rightarrow> string \<Rightarrow> string \<Rightarrow> real" where
  "normalized lev val d = real (lev val d) / real (length val)"

subsection \<open>The anchors\<close>

text \<open>
  An element has the id \<open>v\<close>, or is an \<^verbatim>\<open>a\<close> with the name \<open>v\<close>; the names an
  element carries as the package reads them (\<^verbatim>\<open>raw_names\<close>); the name under which a
  value is recorded (\<^verbatim>\<open>recorded\<close>); and the lookup of \<^verbatim>\<open>handleTextHtml\<close> finding a
  node.
\<close>

definition has_id :: "node \<Rightarrow> string \<Rightarrow> bool" where
  "has_id e v = (property e ''id'' = Some (PStr v))"

definition has_name :: "node \<Rightarrow> string \<Rightarrow> bool" where
  "has_name e v = (tagName e = ''a'' \<and> property e ''name'' = Some (PStr v))"

definition raw_names :: "node \<Rightarrow> string list" where
  "raw_names e =
     (if truthy (property e ''id'') then [String (property e ''id'')] else [])
     @ (if tagName e = ''a'' \<and> truthy (property e ''name'') then [String (property e ''name'')] else [])"

definition recorded :: "bool \<Rightarrow> string \<Rightarrow> string" where
  "recorded flag v = (if flag \<and> startsWith v clobberPrefix then drop (length clobberPrefix) v else v)"

definition found :: "anchors \<Rightarrow> string \<Rightarrow> bool" where
  "found m k = (anchor_lookup m k \<noteq> None)"

text \<open>A document for the examples.\<close>

definition example_tree :: node where
  "example_tree =
     Root [Doctype,
       Element ''h1'' [(''id'', PStr ''hi'')] [Text ''hi''],
       Element ''h2'' [(''id'', PStr ''user-content-intro'')]
         [Element ''a'' [(''name'', PStr ''top'')] []]]"

subsection \<open>The resolution\<close>

text \<open>
  The state once a response has arrived (the request recorded, the retries reset), and
  once its body has been read.
\<close>

definition responded :: "state \<Rightarrow> url \<Rightarrow> state" where
  "responded st u = (record_event (Fetched u) st)\<lparr>retries := 0\<rparr>"

definition read_body :: "state \<Rightarrow> url \<Rightarrow> response \<Rightarrow> state" where
  "read_body st u r = record_event (BodyRead (response_url r)) (responded st u)"

text \<open>
  Collaborators and responses for the examples: the network is a function, the HTML
  parser is a function from the text to the tree, the selector finds the first
  \<^verbatim>\<open>meta\<close> element whose \<^verbatim>\<open>httpEquiv\<close> is \<^verbatim>\<open>refresh\<close>.
\<close>

definition example_url :: "string \<Rightarrow> url" where
  "example_url path =
     \<lparr>without_fragment = ''https://example.com'' @ path, origin = ''https://example.com'',
      pathname = path, fragment = None\<rparr>"

definition example_response :: "nat \<Rightarrow> string \<Rightarrow> string option \<Rightarrow> string option \<Rightarrow> string option \<Rightarrow> response" where
  "example_response code path target type html =
     \<lparr>status = code, statusText = ''status'', response_url = example_url path,
      location = target, content_type = type, body = html\<rparr>"

definition example_platform :: "(nat \<Rightarrow> url \<Rightarrow> fetched) \<Rightarrow> (string \<Rightarrow> node) \<Rightarrow> platform" where
  "example_platform network document =
     \<lparr>fetch = network,
      new_URL = example_URL,
      parse_content_type = (\<lambda>c. Some (takeWhile (\<lambda>x. x \<noteq> CHR '';'') c)),
      fromHtmlIsomorphic = document,
      select_meta_refresh =
        (\<lambda>tree. find (\<lambda>e. tagName e = ''meta''
                           \<and> property e ''httpEquiv'' = Some (PList [''refresh'']))
                   (elements tree)),
      urlAttributes =
        (\<lambda>key. if key = ''href'' then Some (Some [''a'', ''area'', ''base'', ''link''])
               else if key = ''src'' then Some (Some [''img'', ''script''])
               else None),
      levenshteinEditDistance = levenshtein\<rparr>"

definition fast_options :: options where
  "fast_options = emptyOptions\<lparr>opt_checkAnchor := Some False, opt_findUrls := Some False,
     opt_followMetaHttpEquiv := Some False\<rparr>"

definition fast_network :: "nat \<Rightarrow> url \<Rightarrow> fetched" where
  "fast_network n v =
     Resolved (example_response 200 (pathname v) None (Some ''text/html'') (Some ''ok''))"

text \<open>
  The redirects of a resolution, read off the answers of the network. On the answer to a
  request for \<open>u\<close>, an HTTP redirect occurs when the status is 3xx and the
  \<^verbatim>\<open>location\<close> header is there, is not empty and resolves against \<open>u\<close>; a
  \<^verbatim>\<open>meta\<close> refresh occurs when the response is 2xx, its media type is
  \<^verbatim>\<open>text/html\<close>, its body can be read and the \<^verbatim>\<open>meta\<close> refresh of the document
  gives a URL. \<^verbatim>\<open>occurred\<close> is the redirect that occurs on an answer, if any, with
  the following of \<^verbatim>\<open>meta\<close> refreshes on or off. A redirect is permanent when it is an
  HTTP redirect with status 301 or 308.
\<close>

datatype hop = HttpRedirect nat url | MetaRedirect url

fun hop_target :: "hop \<Rightarrow> url" where
  "hop_target (HttpRedirect s v) = v"
| "hop_target (MetaRedirect v) = v"

fun is_permanent :: "hop \<Rightarrow> bool" where
  "is_permanent (HttpRedirect s v) = (s = 301 \<or> s = 308)"
| "is_permanent (MetaRedirect v) = False"

definition is_html :: "platform \<Rightarrow> response \<Rightarrow> bool" where
  "is_html env r =
     (case content_type r of
        None \<Rightarrow> False
      | Some c \<Rightarrow> c \<noteq> [] \<and> parse_content_type env c = Some ''text/html'')"

definition http_hop :: "platform \<Rightarrow> url \<Rightarrow> response \<Rightarrow> hop option" where
  "http_hop env u r =
     (if 300 \<le> status r \<and> status r < 400 \<and> has_location r
      then map_option (HttpRedirect (status r)) (new_URL env (the (location r)) (Some u))
      else None)"

definition meta_hop :: "platform \<Rightarrow> response \<Rightarrow> hop option" where
  "meta_hop env r =
     (if ok r \<and> is_html env r then
        (case body r of
           None \<Rightarrow> None
         | Some html \<Rightarrow>
             (case meta_redirect env (fromHtmlIsomorphic env html) r of
                Inr (Some v) \<Rightarrow> Some (MetaRedirect v)
              | _ \<Rightarrow> None))
      else None)"

definition occurred :: "platform \<Rightarrow> bool \<Rightarrow> url \<Rightarrow> fetched \<Rightarrow> hop option" where
  "occurred env follow u f =
     (case f of
        Rejected error \<Rightarrow> None
      | Resolved r \<Rightarrow>
          (case http_hop env u r of
             Some h \<Rightarrow> Some h
           | None \<Rightarrow> if follow then meta_hop env r else None))"

text \<open>
  The URLs requested during a call, in order: the request number \<open>n\<close> is the one
  that \<^verbatim>\<open>fetch\<close> answers as its request number \<open>n\<close>. \<^verbatim>\<open>hops\<close> are the redirects
  that occurred on the answers to these requests, and \<^verbatim>\<open>permanence\<close> is the value
  of \<^verbatim>\<open>permanent\<close> that redirects call for: unset when there is none, otherwise
  whether all of them are permanent.
\<close>

fun visited :: "event list \<Rightarrow> url list" where
  "visited [] = []"
| "visited (Fetched u # h) = u # visited h"
| "visited (e # h) = visited h"

fun hops_from :: "platform \<Rightarrow> bool \<Rightarrow> nat \<Rightarrow> url list \<Rightarrow> hop list" where
  "hops_from env follow n [] = []"
| "hops_from env follow n (u # us) =
     (case occurred env follow u (fetch env n u) of None \<Rightarrow> [] | Some h \<Rightarrow> [h])
     @ hops_from env follow (Suc n) us"

definition hops :: "platform \<Rightarrow> bool \<Rightarrow> event list \<Rightarrow> hop list" where
  "hops env follow h = hops_from env follow 0 (visited h)"

definition permanence :: "hop list \<Rightarrow> bool option" where
  "permanence hs = (if hs = [] then None else Some (list_all is_permanent hs))"

text \<open>
  The requests of a call follow the network: after a request on whose answer a redirect
  occurred, the next request is for the target of that redirect; after another request,
  the next one is for the same URL again.
\<close>

definition next_url :: "platform \<Rightarrow> bool \<Rightarrow> nat \<Rightarrow> url \<Rightarrow> url" where
  "next_url env follow n u =
     (case occurred env follow u (fetch env n u) of None \<Rightarrow> u | Some h \<Rightarrow> hop_target h)"

fun linked :: "platform \<Rightarrow> bool \<Rightarrow> nat \<Rightarrow> url list \<Rightarrow> bool" where
  "linked env follow n (u # v # us) =
     (v = next_url env follow n u \<and> linked env follow (Suc n) (v # us))"
| "linked env follow n us = True"

text \<open>
  A network with an HTTP redirect and a \<^verbatim>\<open>meta\<close> refresh, and the HTML parser that
  goes with it: \<^verbatim>\<open>/0\<close> redirects to \<^verbatim>\<open>/1\<close> with status 301, \<^verbatim>\<open>/1\<close> is a page
  that refreshes to \<^verbatim>\<open>/2\<close>, and every other URL answers 200 without a media type.
\<close>

definition refreshing_network :: "nat \<Rightarrow> url \<Rightarrow> fetched" where
  "refreshing_network n v =
     (if pathname v = ''/0'' then Resolved (example_response 301 ''/0'' (Some ''/1'') None None)
      else if pathname v = ''/1'' then
        Resolved (example_response 200 ''/1'' None (Some ''text/html'') (Some ''refresh''))
      else Resolved (example_response 200 (pathname v) None None None))"

definition refreshing_document :: "string \<Rightarrow> node" where
  "refreshing_document html =
     (if html = ''refresh''
      then Root [Element ''meta''
                   [(''httpEquiv'', PList [''refresh'']), (''content'', PStr ''0;/2'')] []]
      else Root [])"


text \<open>The field \<^verbatim>\<open>permanent\<close> of a state holds \<^verbatim>\<open>false\<close>.\<close>

definition settled :: "state \<Rightarrow> bool" where
  "settled st = (permanent st = Some False)"


definition plain :: "platform \<Rightarrow> response \<Rightarrow> bool" where
  "plain env r =
     (case content_type r of
        None \<Rightarrow> True
      | Some c \<Rightarrow> c = [] \<or> (\<exists>t. parse_content_type env c = Some t \<and> t \<noteq> ''text/html''))"





text \<open>The argument of \<^verbatim>\<open>deadOrAlive\<close> is the URL \<open>u\<close>, or a string that parses to it.\<close>

definition names :: "platform \<Rightarrow> href_argument \<Rightarrow> url \<Rightarrow> bool" where
  "names env target u =
     (case target of
        URL_href v \<Rightarrow> v = u
      | Text_href input \<Rightarrow> new_URL env input None = Some u)"

text \<open>
  The messages collected in a state are warnings: none has the \<^verbatim>\<open>fatal\<close> flag. A
  thrown value ends a resolution as a fatal message of the package or as an error that
  the package does not wrap.
\<close>

definition warnings :: "state \<Rightarrow> bool" where
  "warnings st = (\<forall>m \<in> set (messages st). fatal m = None)"

fun terminal :: "thrown \<Rightarrow> bool" where
  "terminal (Message m) = (fatal m = Some True)"
| "terminal (Native e) = True"

fun ends_well :: "thrown + url \<Rightarrow> bool" where
  "ends_well (Inl c) = terminal c"
| "ends_well (Inr v) = True"

text \<open>
  A response that lines 277 to 284 answer with a retry when retries are allowed: not 2xx,
  not a redirect with a location, and a status below 400 or from 500 on. A steady network
  gives no such response. The budget of a state bounds the calls of
  \<^verbatim>\<open>deadOrAliveInternal\<close> that are left on a steady network, or without retries.
\<close>

definition retried :: "response \<Rightarrow> bool" where
  "retried r =
     (\<not> ok r \<and> \<not> (300 \<le> status r \<and> status r < 400 \<and> has_location r)
      \<and> (status r < 400 \<or> 500 \<le> status r))"

definition steady :: "platform \<Rightarrow> bool" where
  "steady env = (\<forall>n u r. fetch env n u = Resolved r \<longrightarrow> \<not> retried r)"

definition budget :: "state \<Rightarrow> nat" where
  "budget st =
     nat (maxRedirects st + 1 - int (redirects st)) * (nat (maxRetries st) + 1)
     + (nat (maxRetries st) - retries st)"

text \<open>
  A server that answers every request with status 500, and one that does so three times
  before it answers with 200; the pauses among the events are the retries.
\<close>

definition failing_network :: "nat \<Rightarrow> url \<Rightarrow> fetched" where
  "failing_network n v = Resolved (example_response 500 (pathname v) None None None)"

definition recovering_network :: "nat \<Rightarrow> url \<Rightarrow> fetched" where
  "recovering_network n v =
     (if n < 3 then Resolved (example_response 500 (pathname v) None None None)
      else Resolved (example_response 200 (pathname v) None None None))"

fun is_pause :: "event \<Rightarrow> bool" where
  "is_pause (Slept n) = True"
| "is_pause e = False"


text \<open>
  A network whose last redirect names no URL: \<^verbatim>\<open>/0\<close> redirects to \<^verbatim>\<open>/1#y\<close> and
  \<^verbatim>\<open>/1\<close> to \<^verbatim>\<open>/2#z\<close>, both with status 302, and every other URL answers 302
  with a \<^verbatim>\<open>location\<close> header that is no URL.
\<close>

definition misdirecting_network :: "nat \<Rightarrow> url \<Rightarrow> fetched" where
  "misdirecting_network n v =
     (if pathname v = ''/0'' then Resolved (example_response 302 ''/0'' (Some ''/1#y'') None None)
      else if pathname v = ''/1'' then Resolved (example_response 302 ''/1'' (Some ''/2#z'') None None)
      else Resolved (example_response 302 (pathname v) (Some ''https://exa[mple.org/'') None None))"

section \<open>Properties of the declarative-refresh parser\<close>

lemmas refresh_defs =
  sharedDeclarativeRefresh_def parse_def skipTime_def urlKeyword_def skipQuotes_def
  skipAsciiWhitespace_def skip_while.simps charCodeAt_def asciiDigit_def dot_def
  asciiDigitOrDot_def asciiWhitespace_def commaOrSemicolon_def Let_def

lemmas example_URL_defs = example_URL_def example_from_def host_char_def directory_def Let_def

lemma code_is: "(of_char d :: nat) = n \<Longrightarrow> (of_char c = n) = (c = d)"
  by auto

lemma code_eq:
  "(of_char c = (85::nat)) = (c = CHR ''U'')"
  "(of_char c = (117::nat)) = (c = CHR ''u'')"
  "(of_char c = (82::nat)) = (c = CHR ''R'')"
  "(of_char c = (114::nat)) = (c = CHR ''r'')"
  "(of_char c = (76::nat)) = (c = CHR ''L'')"
  "(of_char c = (108::nat)) = (c = CHR ''l'')"
  "(of_char c = (61::nat)) = (c = CHR ''='')"
  "(of_char c = (9::nat)) = (c = CHR 0x09)"
  "(of_char c = (10::nat)) = (c = CHR 0x0A)"
  "(of_char c = (12::nat)) = (c = CHR 0x0C)"
  "(of_char c = (13::nat)) = (c = CHR 0x0D)"
  "(of_char c = (32::nat)) = (c = CHR '' '')"
  by (rule code_is, simp)+

lemma charCodeAt_Cons: "drop p input = c # cs \<Longrightarrow> charCodeAt input p = Some (of_char c)"
  by (metis charCodeAt_def drop_eq_Nil2 hd_drop_conv_nth leI list.sel(1) list.simps(3))

lemma drop_Suc_Cons: "drop p input = c # cs \<Longrightarrow> drop (Suc p) input = cs"
  by (metis drop_Suc drop_tl list.sel(3) tl_drop)

lemma charCodeAt_Nil: "drop p input = [] \<Longrightarrow> charCodeAt input p = None"
  by (simp add: charCodeAt_def)

lemma skip_while_drop:
  "drop (skip_while test input p) input = dropWhile (\<lambda>c. test (Some (of_char c))) (drop p input)"
proof (induction test input p rule: skip_while.induct)
  case (1 test input position)
  show ?case
  proof (cases "position < length input \<and> test (charCodeAt input position)")
    case True
    then obtain c cs where d: "drop position input = c # cs"
      by (metis Cons_nth_drop_Suc)
    with True 1 show ?thesis
      by (subst skip_while.simps) (simp add: charCodeAt_Cons drop_Suc_Cons)
  next
    case False
    show ?thesis
    proof (cases "position < length input")
      case True
      then obtain c cs where d: "drop position input = c # cs"
        by (metis Cons_nth_drop_Suc)
      with False True show ?thesis
        by (subst skip_while.simps) (simp add: charCodeAt_Cons)
    next
      case False
      then show ?thesis by (subst skip_while.simps) simp
    qed
  qed
qed

lemma urlKeyword_partial:
  assumes "partial_keyword (drop position input)"
  shows "urlKeyword input position = drop position input"
proof -
  let ?ws = "\<lambda>c. asciiWhitespace (Some (of_char c))"
  have ws: "?ws = is_whitespace"
    by (rule ext) (simp add: asciiWhitespace_def is_whitespace_def code_eq)
  from assms obtain u rest where d0: "drop position input = u # rest" and u: "is_U u"
    by (cases "drop position input" rule: partial_keyword.cases) auto
  have c0: "charCodeAt input position = Some (of_char u)"
    using d0 by (rule charCodeAt_Cons)
  have d1: "drop (Suc position) input = rest"
    using d0 by (rule drop_Suc_Cons)
  have isU: "of_char u = (85::nat) \<or> of_char u = (117::nat)"
    using u by (auto simp: is_U_def)
  show ?thesis
  proof (cases rest)
    case Nil
    then have "charCodeAt input (Suc position) = None"
      using d1 by (simp add: charCodeAt_Nil)
    then show ?thesis
      using c0 isU by (auto simp: urlKeyword_def Let_def)
  next
    case (Cons r rest1)
    then have c1: "charCodeAt input (Suc position) = Some (of_char r)"
      and d2: "drop (Suc (Suc position)) input = rest1"
      using d1 by (simp_all add: charCodeAt_Cons drop_Suc_Cons)
    show ?thesis
    proof (cases "is_R r")
      case False
      then have "of_char r \<noteq> (82::nat) \<and> of_char r \<noteq> (114::nat)"
        by (simp add: is_R_def code_eq)
      then show ?thesis
        using c0 c1 isU by (auto simp: urlKeyword_def Let_def)
    next
      case True
      then have isR: "of_char r = (82::nat) \<or> of_char r = (114::nat)"
        by (auto simp: is_R_def)
      show ?thesis
      proof (cases rest1)
        case Nil
        then have "charCodeAt input (Suc (Suc position)) = None"
          using d2 by (simp add: charCodeAt_Nil)
        then show ?thesis
          using c0 c1 isU isR by (auto simp: urlKeyword_def Let_def)
      next
        case (Cons l rest2)
        then have c2: "charCodeAt input (Suc (Suc position)) = Some (of_char l)"
          and d3: "drop (Suc (Suc (Suc position))) input = rest2"
          using d2 by (simp_all add: charCodeAt_Cons drop_Suc_Cons)
        show ?thesis
        proof (cases "is_L l")
          case False
          then have "of_char l \<noteq> (76::nat) \<and> of_char l \<noteq> (108::nat)"
            by (simp add: is_L_def code_eq)
          then show ?thesis
            using c0 c1 c2 isU isR by (auto simp: urlKeyword_def Let_def)
        next
          case True
          then have isL: "of_char l = (76::nat) \<or> of_char l = (108::nat)"
            by (auto simp: is_L_def)
          let ?p = "skipAsciiWhitespace input (Suc (Suc (Suc position)))"
          have d4: "drop ?p input = dropWhile is_whitespace rest2"
            using d3 by (simp add: skipAsciiWhitespace_def skip_while_drop ws)
          from assms d0 \<open>rest = r # rest1\<close> \<open>rest1 = l # rest2\<close> \<open>is_R r\<close> True
          have no_eq: "case dropWhile is_whitespace rest2 of [] \<Rightarrow> True | c # cs \<Rightarrow> c \<noteq> CHR ''=''"
            by simp
          have "charCodeAt input ?p \<noteq> Some 61"
          proof (cases "dropWhile is_whitespace rest2")
            case Nil
            then show ?thesis using d4 by (simp add: charCodeAt_Nil)
          next
            case (Cons c cs)
            then have "charCodeAt input ?p = Some (of_char c)"
              using d4 by (simp add: charCodeAt_Cons)
            moreover have "c \<noteq> CHR ''=''" using no_eq Cons by simp
            ultimately show ?thesis by (simp add: code_eq)
          qed
          then show ?thesis
            using c0 c1 c2 isU isR isL by (auto simp: urlKeyword_def Let_def)
        qed
      qed
    qed
  qed
qed

text \<open>
  C2, as the code has it. Where the keyword \<^verbatim>\<open>URL\<close> is partially present (a
  \<^verbatim>\<open>U\<close> not followed by \<^verbatim>\<open>R\<close>, \<^verbatim>\<open>UR\<close> not followed by \<^verbatim>\<open>L\<close>, or the three
  letters and optional whitespace not followed by \<^verbatim>\<open>=\<close>), the parser goes straight to
  the resolution of the URL and passes the quote-stripping step by: the URL text is the
  rest of the input from the first letter of the keyword on, with the letters consumed, and
  with every quote and all the text after it.
\<close>

theorem partial_keyword_goes_to_parse:
  assumes "skipTime input = Some position"
    and "partial_keyword (drop position input)"
  shows "urlKeyword input position = drop position input
    \<and> sharedDeclarativeRefresh url_of input from =
        (case parse url_of (drop position input) from of
           Inl e \<Rightarrow> Inl e
         | Inr u \<Rightarrow> Inr (Some u))"
  using assms by (simp add: sharedDeclarativeRefresh_def urlKeyword_partial)

theorem partial_keyword_goes_to_parse_witness:
  \<open>skipTime ''0;url "x"'' = Some 2
   \<and> partial_keyword (drop 2 ''0;url "x"'')
   \<and> urlKeyword ''0;url "x"'' 2 = ''url "x"''
   \<and> sharedDeclarativeRefresh example_URL ''0;url "x"'' example_from =
       Inr (Some \<lparr>without_fragment = ''https://example.com/url "x"'',
                  origin = ''https://example.com'', pathname = ''/url "x"'',
                  fragment = None\<rparr>)\<close>
proof -
  have t: \<open>skipTime ''0;url "x"'' = Some 2\<close>
    by (simp add: refresh_defs)
  have p: \<open>partial_keyword (drop 2 ''0;url "x"'')\<close>
    by (simp add: is_U_def is_R_def is_L_def is_whitespace_def)
  show ?thesis
    using t p partial_keyword_goes_to_parse [OF t p, of example_URL example_from]
    by (simp add: parse_def example_URL_defs)
qed

text \<open>
  C2 as stated fails: after the \<^verbatim>\<open>u\<close> of \<^verbatim>\<open>0;u'x'y\<close> the remaining text starts with
  a quote, and quote stripping at that place would give \<^verbatim>\<open>x\<close>; but the URL text of the
  parser is \<^verbatim>\<open>u'x'y\<close>, with both quotes and with the text after the closing one.
\<close>

theorem partial_keyword_quotes_counterexample:
  \<open>skipTime ''0;u'x'y'' = Some 2
   \<and> skipQuotes ''0;u'x'y'' 3 = ''x''
   \<and> urlKeyword ''0;u'x'y'' 2 = ''u'x'y''
   \<and> urlKeyword ''0;u'x'y'' 2 \<noteq> skipQuotes ''0;u'x'y'' 3
   \<and> urlKeyword ''0;u'x'y'' 2 \<noteq> ''u'' @ skipQuotes ''0;u'x'y'' 3\<close>
  by (simp add: refresh_defs)

text \<open>
  C9. For every URL parser and base: \<^verbatim>\<open>0;/to\<close> gives the URL that \<^verbatim>\<open>/to\<close> resolves
  to; \<^verbatim>\<open>;/to\<close> gives nothing and throws nothing; \<^verbatim>\<open>0;url="to"c\<close> gives the URL that
  \<^verbatim>\<open>to\<close> resolves to, the URL text being cut at the closing quote; and where the URL
  text of any input does not parse against the base, the fatal message
  \<^verbatim>\<open>shared-declarative-refresh\<close> is thrown, whose reason names that text and the base.
\<close>

theorem sharedDeclarativeRefresh_examples:
  \<open>(url_of ''/to'' (Some from) = Some target \<longrightarrow>
      sharedDeclarativeRefresh url_of ''0;/to'' from = Inr (Some target))
   \<and> sharedDeclarativeRefresh url_of '';/to'' from = Inr None
   \<and> urlKeyword ''0;url="to"c'' 2 = ''to''
   \<and> (url_of ''to'' (Some from) = Some target' \<longrightarrow>
      sharedDeclarativeRefresh url_of ''0;url="to"c'' from = Inr (Some target'))
   \<and> (skipTime input = Some position
        \<and> url_of (urlKeyword input position) (Some from) = None \<longrightarrow>
      sharedDeclarativeRefresh url_of input from =
        Inl (Message
          \<lparr>reason = ''Unexpected invalid URL `'' @ urlKeyword input position
             @ ''` in `content` on `meta[http-equiv=refresh] relative to `'' @ href from @ ''`'',
           ruleId = ''shared-declarative-refresh'',
           source = ''dead-or-alive'',
           message_url = ''https://github.com/wooorm/dead-or-alive#shared-declarative-refresh'',
           fatal = Some True,
           cause = Some (InvalidUrl (urlKeyword input position))\<rparr>))\<close>
proof -
  have a: \<open>skipTime ''0;/to'' = Some 2\<close> \<open>urlKeyword ''0;/to'' 2 = ''/to''\<close>
    by (simp_all add: refresh_defs)
  have b: \<open>skipTime '';/to'' = None\<close>
    by (simp add: refresh_defs)
  have c: \<open>skipTime ''0;url="to"c'' = Some 2\<close> \<open>urlKeyword ''0;url="to"c'' 2 = ''to''\<close>
    by (simp_all add: refresh_defs)
  show ?thesis
    by (simp add: sharedDeclarativeRefresh_def parse_def a b c new_message_def documentation_def)
qed

theorem sharedDeclarativeRefresh_examples_witness:
  \<open>example_URL ''/to'' (Some example_from) =
      Some \<lparr>without_fragment = ''https://example.com/to'', origin = ''https://example.com'',
          pathname = ''/to'', fragment = None\<rparr>
   \<and> sharedDeclarativeRefresh example_URL ''0;/to'' example_from =
      Inr (Some \<lparr>without_fragment = ''https://example.com/to'', origin = ''https://example.com'',
          pathname = ''/to'', fragment = None\<rparr>)
   \<and> href \<lparr>without_fragment = ''https://example.com/to'', origin = ''https://example.com'',
          pathname = ''/to'', fragment = None\<rparr>
      = ''https://example.com/to''
   \<and> sharedDeclarativeRefresh example_URL ''0;url="to"c'' example_from =
      Inr (Some \<lparr>without_fragment = ''https://example.com/to'', origin = ''https://example.com'',
          pathname = ''/to'', fragment = None\<rparr>)
   \<and> skipTime ''0;url="https://exa[mple.org"'' = Some 2
   \<and> example_URL (urlKeyword ''0;url="https://exa[mple.org"'' 2) (Some example_from) = None
   \<and> sharedDeclarativeRefresh example_URL ''0;url="https://exa[mple.org"'' example_from =
      Inl (Message
        \<lparr>reason = ''Unexpected invalid URL `https://exa[mple.org` in `content` on `meta[http-equiv=refresh] relative to `https://example.com/from`'',
         ruleId = ''shared-declarative-refresh'',
         source = ''dead-or-alive'',
         message_url = ''https://github.com/wooorm/dead-or-alive#shared-declarative-refresh'',
         fatal = Some True,
         cause = Some (InvalidUrl ''https://exa[mple.org'')\<rparr>)\<close>
proof -
  let ?to = \<open>\<lparr>without_fragment = ''https://example.com/to'', origin = ''https://example.com'',
          pathname = ''/to'', fragment = None\<rparr>\<close>
  have p1: \<open>example_URL ''/to'' (Some example_from) = Some ?to\<close>
    by (simp add: example_URL_defs)
  have p2: \<open>example_URL ''to'' (Some example_from) = Some ?to\<close>
    by (simp add: example_URL_defs)
  have t: \<open>skipTime ''0;url="https://exa[mple.org"'' = Some 2\<close>
    by (simp add: refresh_defs)
  have k: \<open>urlKeyword ''0;url="https://exa[mple.org"'' 2 = ''https://exa[mple.org''\<close>
    by (simp add: refresh_defs)
  have p3: \<open>example_URL ''https://exa[mple.org'' (Some example_from) = None\<close>
    by (simp add: example_URL_defs)
  have h: \<open>href example_from = ''https://example.com/from''\<close> \<open>href ?to = ''https://example.com/to''\<close>
    by (simp_all add: href_def hash_def example_from_def)
  show ?thesis
    using sharedDeclarativeRefresh_examples
      [of example_URL example_from ?to ?to \<open>''0;url="https://exa[mple.org"''\<close> 2]
    by (simp add: p1 p2 p3 t k h)
qed

section \<open>Properties of the proposals\<close>

lemma insort_key_map:
  "insort_key k (g x) (map g ys) = map g (insort_key (\<lambda>y. k (g y)) x ys)"
  by (induction ys) simp_all

lemma sort_key_map:
  "sort_key k (map g xs) = map g (sort_key (\<lambda>y. k (g y)) xs)"
  by (induction xs) (simp_all add: insort_key_map)

lemma propose_eq:
  assumes "val \<noteq> []"
  shows "propose lev val ideas =
    take 4 (sort_key (normalized lev val) (filter (\<lambda>d. normalized lev val d < 1 / 2) ideas))"
proof -
  let ?f = "score lev val"
  have k: "(\<lambda>y. sort_score (?f y)) = normalized lev val"
    using assms by (simp add: sort_score_def score_def normalized_def fun_eq_iff)
  have p: "(filter_score \<circ> ?f) = (\<lambda>d. normalized lev val d < 1 / 2)"
    using assms by (simp add: filter_score_def score_def normalized_def relativeThreshold_def fun_eq_iff)
  have m: "map (pick \<circ> ?f) xs = xs" for xs
    by (induction xs) (simp_all add: pick_def score_def)
  have "propose lev val ideas =
      take 4 (map pick (filter filter_score (map ?f (sort_key (normalized lev val) ideas))))"
    by (simp add: propose_def max_proposals_def sort_key_map k)
  also have "\<dots> = take 4 (filter (\<lambda>d. normalized lev val d < 1 / 2) (sort_key (normalized lev val) ideas))"
    by (simp add: filter_map m p)
  finally show ?thesis by (simp add: filter_sort)
qed

text \<open>
  C8. For a non-empty target and any candidates, \<^verbatim>\<open>propose\<close> returns the first four
  of the candidates whose normalized distance is below \<open>0.5\<close>, stably sorted by that
  distance: at most four candidates, each one of the given ones and below the threshold,
  in ascending order of the distance, those of equal distance in the order in which they were
  given (they are the first ones of that distance among the candidates), and none
  where no candidate is below the threshold or none is given.
\<close>

theorem propose_ranks:
  assumes "val \<noteq> []"
  shows "propose lev val ideas =
      take 4 (sort_key (normalized lev val) (filter (\<lambda>d. normalized lev val d < 0.5) ideas))
    \<and> length (propose lev val ideas) \<le> 4
    \<and> (\<forall>d \<in> set (propose lev val ideas). d \<in> set ideas \<and> normalized lev val d < 0.5)
    \<and> sorted (map (normalized lev val) (propose lev val ideas))
    \<and> (\<forall>x. prefix (filter (\<lambda>d. normalized lev val d = x) (propose lev val ideas))
                   (filter (\<lambda>d. normalized lev val d = x) ideas))
    \<and> ((\<forall>d \<in> set ideas. \<not> normalized lev val d < 0.5) \<longrightarrow> propose lev val ideas = [])
    \<and> (ideas = [] \<longrightarrow> propose lev val ideas = [])"
proof -
  let ?n = "normalized lev val"
  let ?P = "\<lambda>d. ?n d < 1 / 2"
  let ?S = "sort_key ?n (filter ?P ideas)"
  have eq: "propose lev val ideas = take 4 ?S"
    using assms by (rule propose_eq)
  have len: "length (take 4 ?S) \<le> 4" by simp
  have mem: "\<forall>d \<in> set (take 4 ?S). d \<in> set ideas \<and> ?P d"
  proof
    fix d assume "d \<in> set (take 4 ?S)"
    then have "d \<in> set ?S" by (rule in_set_takeD)
    then show "d \<in> set ideas \<and> ?P d" by simp
  qed
  have "sorted (map ?n ?S)" by (rule sorted_sort_key)
  then have "sorted (take 4 (map ?n ?S))" by (rule sorted_wrt_take)
  then have srt: "sorted (map ?n (take 4 ?S))" by (simp add: take_map)
  have stable: "prefix (filter (\<lambda>d. ?n d = x) (take 4 ?S)) (filter (\<lambda>d. ?n d = x) ideas)" for x
  proof -
    have "prefix (filter (\<lambda>d. ?n d = x) (take 4 ?S)) (filter (\<lambda>d. ?n d = x) ?S)"
      by (intro filter_mono_prefix take_is_prefix)
    moreover have "filter (\<lambda>d. ?n d = x) ?S = filter (\<lambda>d. ?n d = x) (filter ?P ideas)"
      by (rule sort_key_stable)
    moreover have "prefix (filter (\<lambda>d. ?n d = x) (filter ?P ideas)) (filter (\<lambda>d. ?n d = x) ideas)"
    proof (cases "x < 1 / 2")
      case True
      then have "filter (\<lambda>d. ?n d = x) (filter ?P ideas) = filter (\<lambda>d. ?n d = x) ideas"
        by (auto intro: filter_cong)
      then show ?thesis by simp
    next
      case False
      then have "filter (\<lambda>d. ?n d = x) (filter ?P ideas) = []"
        by (auto simp: filter_empty_conv)
      then show ?thesis by simp
    qed
    ultimately show ?thesis by simp
  qed
  have none: "(\<forall>d \<in> set ideas. \<not> ?P d) \<longrightarrow> take 4 ?S = []"
  proof
    assume "\<forall>d \<in> set ideas. \<not> ?P d"
    then have "filter ?P ideas = []" by (simp add: filter_empty_conv)
    then show "take 4 ?S = []" by simp
  qed
  have empty: "ideas = [] \<longrightarrow> take 4 ?S = []" by simp
  have half: "(0.5::real) = 1 / 2" by simp
  show ?thesis
    unfolding eq half
    by (intro conjI allI) (rule refl len mem srt stable none empty)+
qed

theorem propose_ranks_witness:
  "''abc'' \<noteq> []
   \<and> propose levenshtein ''abc'' [''abd'', ''xyz'', ''abc'', ''ab'', ''bc'', ''abcd'', ''b'']
       = [''abc'', ''abd'', ''ab'', ''bc'']
   \<and> map (normalized levenshtein ''abc'') [''abd'', ''xyz'', ''abc'', ''ab'', ''bc'', ''abcd'', ''b'']
       = [1 / 3, 1, 0, 1 / 3, 1 / 3, 1 / 3, 2 / 3]
   \<and> propose levenshtein ''abc'' [''xyz'', ''b''] = []"
proof -
  have n: "''abc'' \<noteq> []" by simp
  have v: "normalized levenshtein ''abc'' ''abd'' = 1 / 3"
    "normalized levenshtein ''abc'' ''xyz'' = 1"
    "normalized levenshtein ''abc'' ''abc'' = 0"
    "normalized levenshtein ''abc'' ''ab'' = 1 / 3"
    "normalized levenshtein ''abc'' ''bc'' = 1 / 3"
    "normalized levenshtein ''abc'' ''abcd'' = 1 / 3"
    "normalized levenshtein ''abc'' ''b'' = 2 / 3"
    by (simp_all add: normalized_def)
  have a: "propose levenshtein ''abc'' [''abd'', ''xyz'', ''abc'', ''ab'', ''bc'', ''abcd'', ''b'']
      = take 4 (sort_key (normalized levenshtein ''abc'')
          (filter (\<lambda>d. normalized levenshtein ''abc'' d < 0.5)
             [''abd'', ''xyz'', ''abc'', ''ab'', ''bc'', ''abcd'', ''b'']))"
    using propose_ranks [OF n, of levenshtein "[''abd'', ''xyz'', ''abc'', ''ab'', ''bc'', ''abcd'', ''b'']"]
    by (rule conjunct1)
  have b: "propose levenshtein ''abc'' [''xyz'', ''b'']
      = take 4 (sort_key (normalized levenshtein ''abc'')
          (filter (\<lambda>d. normalized levenshtein ''abc'' d < 0.5) [''xyz'', ''b'']))"
    using propose_ranks [OF n, of levenshtein "[''xyz'', ''b'']"]
    by (rule conjunct1)
  show ?thesis
    unfolding a b by (simp add: v)
qed

section \<open>Properties of the anchors\<close>

lemma anchor_node_update:
  "\<exists>y. anchor_node (a\<lparr>systemId := Some n\<rparr>) = Some y"
  "\<exists>y. anchor_node (a\<lparr>systemName := Some n\<rparr>) = Some y"
  "\<exists>y. anchor_node (a\<lparr>userId := Some n\<rparr>) = Some y"
  "\<exists>y. anchor_node (a\<lparr>userName := Some n\<rparr>) = Some y"
  by (simp_all add: anchor_node_def split: option.splits)

lemma set_anchor_eq:
  "\<exists>a. set_anchor flag ty v n m = AList.update (recorded flag v) a m \<and> (\<exists>y. anchor_node a = Some y)"
  by (cases ty) (auto simp: set_anchor_def recorded_def Let_def anchor_node_update)

lemma found_update:
  "found (AList.update k' a m) k = (if k = k' then anchor_node a \<noteq> None else found m k)"
  by (simp add: found_def anchor_lookup_def update_conv')

lemma found_set_anchor:
  "found (set_anchor flag ty v n m) k = (k = recorded flag v \<or> found m k)"
proof -
  obtain a where "set_anchor flag ty v n m = AList.update (recorded flag v) a m"
    and "\<exists>y. anchor_node a = Some y"
    using set_anchor_eq by blast
  then show ?thesis
    by (auto simp: found_update)
qed

lemma found_visitor:
  "found (visitor flag e m) k = (found m k \<or> (\<exists>v \<in> set (raw_names e). recorded flag v = k))"
  by (auto simp: visitor_def raw_names_def Let_def found_set_anchor)

lemma found_fold:
  "found (fold (visitor flag) es m) k =
     (found m k \<or> (\<exists>e \<in> set es. \<exists>v \<in> set (raw_names e). recorded flag v = k))"
  by (induction es arbitrary: m) (auto simp: found_visitor)

lemma found_getAnchors:
  "found (getAnchors tree flag) k =
     (\<exists>e \<in> set (elements tree). \<exists>v \<in> set (raw_names e). recorded flag v = k)"
proof -
  have "\<not> found [] k"
    by (simp add: found_def anchor_lookup_def empty_anchor_def anchor_node_def)
  then show ?thesis
    by (simp add: getAnchors_def found_fold)
qed

lemma has_id_raw: "f \<noteq> [] \<Longrightarrow> has_id e f \<Longrightarrow> f \<in> set (raw_names e)"
  by (simp add: has_id_def raw_names_def)

lemma has_name_raw: "f \<noteq> [] \<Longrightarrow> has_name e f \<Longrightarrow> f \<in> set (raw_names e)"
  by (simp add: has_name_def raw_names_def)

lemma recorded_simps:
  "recorded False v = v"
  "\<not> startsWith v clobberPrefix \<Longrightarrow> recorded flag v = v"
  "recorded True (clobberPrefix @ f) = f"
  by (simp_all add: recorded_def startsWith_def)

text \<open>
  C7, as the code has it. For every tree and non-empty fragment \<open>f\<close>: an element with the
  id \<open>f\<close>, or an \<^verbatim>\<open>a\<close> with the name \<open>f\<close>, makes the lookup of \<open>f\<close> succeed,
  unless \<^verbatim>\<open>resolveClobberPrefix\<close> is on and \<open>f\<close> itself starts with
  \<^verbatim>\<open>user-content-\<close>; an element with the id (or such a name) \<^verbatim>\<open>user-content-\<close>
  followed by \<open>f\<close> makes the lookup of \<open>f\<close> succeed when the flag is on, and is
  recorded under its whole name when the flag is off; and with the flag off the lookup of
  \<open>f\<close> fails when no element carries \<open>f\<close> itself.
\<close>

theorem anchor_lookup_rules:
  assumes "f \<noteq> []"
  shows "(e \<in> set (elements tree) \<and> (has_id e f \<or> has_name e f)
            \<and> \<not> (flag \<and> startsWith f clobberPrefix)
          \<longrightarrow> found (getAnchors tree flag) f)
    \<and> (e \<in> set (elements tree) \<and> (has_id e (clobberPrefix @ f) \<or> has_name e (clobberPrefix @ f))
          \<longrightarrow> found (getAnchors tree True) f \<and> found (getAnchors tree False) (clobberPrefix @ f))
    \<and> ((\<forall>e \<in> set (elements tree). f \<notin> set (raw_names e))
          \<longrightarrow> \<not> found (getAnchors tree False) f)"
proof (intro conjI impI)
  assume a: "e \<in> set (elements tree) \<and> (has_id e f \<or> has_name e f)
    \<and> \<not> (flag \<and> startsWith f clobberPrefix)"
  then have "f \<in> set (raw_names e)"
    using assms has_id_raw has_name_raw by blast
  moreover have "recorded flag f = f"
    using a by (auto simp: recorded_def)
  ultimately show "found (getAnchors tree flag) f"
    using a unfolding found_getAnchors by blast
next
  assume a: "e \<in> set (elements tree)
    \<and> (has_id e (clobberPrefix @ f) \<or> has_name e (clobberPrefix @ f))"
  have "clobberPrefix @ f \<noteq> []" using assms by simp
  then have r: "clobberPrefix @ f \<in> set (raw_names e)"
    using a has_id_raw has_name_raw by blast
  show "found (getAnchors tree True) f"
    unfolding found_getAnchors using a r recorded_simps(3) by blast
  show "found (getAnchors tree False) (clobberPrefix @ f)"
    unfolding found_getAnchors using a r recorded_simps(1) by blast
next
  assume "\<forall>e \<in> set (elements tree). f \<notin> set (raw_names e)"
  then show "\<not> found (getAnchors tree False) f"
    unfolding found_getAnchors by (simp add: recorded_simps(1))
qed

lemmas anchors_defs =
  getAnchors_def visitor_def set_anchor_def startsWith_def clobberPrefix_def
  found_def anchor_lookup_def anchor_node_def empty_anchor_def Let_def

theorem anchor_lookup_rules_witness:
  "''hi'' \<noteq> [] \<and> ''intro'' \<noteq> []
   \<and> Element ''h1'' [(''id'', PStr ''hi'')] [Text ''hi''] \<in> set (elements example_tree)
   \<and> has_id (Element ''h1'' [(''id'', PStr ''hi'')] [Text ''hi'']) ''hi''
   \<and> found (getAnchors example_tree True) ''hi''
   \<and> found (getAnchors example_tree True) ''intro''
   \<and> found (getAnchors example_tree False) ''user-content-intro''
   \<and> \<not> found (getAnchors example_tree False) ''intro''
   \<and> found (getAnchors example_tree True) ''top''"
proof -
  let ?h1 = "Element ''h1'' [(''id'', PStr ''hi'')] [Text ''hi'']"
  let ?a = "Element ''a'' [(''name'', PStr ''top'')] []"
  let ?h2 = "Element ''h2'' [(''id'', PStr ''user-content-intro'')] [?a]"
  have els: "elements example_tree = [?h1, ?h2, ?a]"
    by (simp add: example_tree_def)
  have raw: "raw_names ?h1 = [''hi'']" "raw_names ?h2 = [''user-content-intro'']"
    "raw_names ?a = [''top'']"
    by (simp_all add: raw_names_def)
  have ids: "has_id ?h1 ''hi''" "has_id ?h2 (clobberPrefix @ ''intro'')" "has_name ?a ''top''"
    by (simp_all add: has_id_def has_name_def clobberPrefix_def)
  have pre: "\<not> startsWith ''hi'' clobberPrefix" "\<not> startsWith ''top'' clobberPrefix"
    by (simp_all add: startsWith_def clobberPrefix_def)
  have n: "''hi'' \<noteq> []" "''intro'' \<noteq> []" "''top'' \<noteq> []" by simp_all
  show ?thesis
    using anchor_lookup_rules [OF n(1), of ?h1 example_tree True]
      anchor_lookup_rules [OF n(2), of ?h2 example_tree True]
      anchor_lookup_rules [OF n(3), of ?a example_tree True]
      els raw ids pre
    by (simp add: clobberPrefix_def)
qed

text \<open>
  C7 as stated fails: with \<^verbatim>\<open>resolveClobberPrefix\<close> on, an element whose id is
  \<^verbatim>\<open>user-content-hi\<close> is recorded under \<^verbatim>\<open>hi\<close>, and the lookup of the fragment
  \<^verbatim>\<open>user-content-hi\<close>, equal to its id, finds nothing.
\<close>

theorem anchor_lookup_prefixed_counterexample:
  "Element ''h1'' [(''id'', PStr ''user-content-hi'')] []
     \<in> set (elements (Root [Element ''h1'' [(''id'', PStr ''user-content-hi'')] []]))
   \<and> has_id (Element ''h1'' [(''id'', PStr ''user-content-hi'')] []) ''user-content-hi''
   \<and> anchor_lookup
        (getAnchors (Root [Element ''h1'' [(''id'', PStr ''user-content-hi'')] []]) True)
        ''user-content-hi'' = None
   \<and> \<not> found (getAnchors (Root [Element ''h1'' [(''id'', PStr ''user-content-hi'')] []]) True)
        ''user-content-hi''"
  by (simp add: anchors_defs has_id_def)

section \<open>Properties of the resolution\<close>

subsection \<open>The ways through one pass\<close>

lemma record_event_fields [simp]:
  "anchorAllowlist (record_event e st) = anchorAllowlist st"
  "checkAnchor (record_event e st) = checkAnchor st"
  "findUrls (record_event e st) = findUrls st"
  "followMetaHttpEquiv (record_event e st) = followMetaHttpEquiv st"
  "maxRedirects (record_event e st) = maxRedirects st"
  "maxRetries (record_event e st) = maxRetries st"
  "messages (record_event e st) = messages st"
  "permanent (record_event e st) = permanent st"
  "resolveClobberPrefix (record_event e st) = resolveClobberPrefix st"
  "redirects (record_event e st) = redirects st"
  "retries (record_event e st) = retries st"
  "sleep (record_event e st) = sleep st"
  "timeout (record_event e st) = timeout st"
  "urls (record_event e st) = urls st"
  "userAgent (record_event e st) = userAgent st"
  "history (record_event e st) = history st @ [e]"
  by (simp_all add: record_event_def)

lemma push_fields [simp]:
  "anchorAllowlist (push m st) = anchorAllowlist st"
  "checkAnchor (push m st) = checkAnchor st"
  "findUrls (push m st) = findUrls st"
  "followMetaHttpEquiv (push m st) = followMetaHttpEquiv st"
  "maxRedirects (push m st) = maxRedirects st"
  "maxRetries (push m st) = maxRetries st"
  "messages (push m st) = messages st @ [m]"
  "permanent (push m st) = permanent st"
  "resolveClobberPrefix (push m st) = resolveClobberPrefix st"
  "redirects (push m st) = redirects st"
  "retries (push m st) = retries st"
  "sleep (push m st) = sleep st"
  "timeout (push m st) = timeout st"
  "urls (push m st) = urls st"
  "userAgent (push m st) = userAgent st"
  "history (push m st) = history st"
  by (simp_all add: push_def)

lemma handleTextHtml_Again:
  assumes "handleTextHtml env st u r = Again st' u'"
  shows "st' = refreshed (record_event (BodyRead (response_url r)) st) u u'"
    and "followMetaHttpEquiv st"
    and "\<exists>html. body r = Some html
          \<and> meta_redirect env (fromHtmlIsomorphic env html) r = Inr (Some u')"
  using assms unfolding handleTextHtml_def Let_def
  by (simp_all split: if_splits option.splits sum.splits)

lemma handle_content_Again:
  assumes "handle_content env st u r = Again st' u'"
  shows "handleTextHtml env st u r = Again st' u'" and "is_html env r"
  using assms unfolding handle_content_def Let_def is_html_def
  by (simp_all add: handleUnknown_def split: if_splits option.splits)

lemma attempt_Again_cases [consumes 1, case_names retry_rejected redirect retry_status refresh]:
  assumes "attempt env st u = Again st' u'"
  obtains
    (retry_rejected) error where
      "fetch env (requests (history st)) u = Rejected error"
      "int (retries st) < maxRetries st"
      "retry (record_event (Fetched u) st) u = Again st' u'"
  | (redirect) r where
      "fetch env (requests (history st)) u = Resolved r"
      "300 \<le> status r" "status r < 400"
      "new_URL env (the (location r)) (Some u) = Some u'"
      "st' = redirected (responded st u) u r u'"
      "has_location r"
  | (retry_status) r where
      "fetch env (requests (history st)) u = Resolved r"
      "\<not> ok r" "0 < maxRetries st" "status r < 400 \<or> 500 \<le> status r"
      "\<not> (300 \<le> status r \<and> status r < 400 \<and> has_location r)"
      "retry (responded st u) u = Again st' u'"
  | (refresh) r html where
      "fetch env (requests (history st)) u = Resolved r"
      "ok r"
      "st' = refreshed (read_body st u r) u u'"
      "is_html env r" "followMetaHttpEquiv st" "body r = Some html"
      "meta_redirect env (fromHtmlIsomorphic env html) r = Inr (Some u')"
proof (cases "int (redirects st) > maxRedirects st")
  case True
  with assms show ?thesis by (simp add: attempt_def)
next
  case False
  show ?thesis
  proof (cases "fetch env (requests (history st)) u")
    case (Rejected error)
    with assms False have "int (retries st) < maxRetries st"
      "retry (record_event (Fetched u) st) u = Again st' u'"
      by (simp_all add: attempt_def Let_def split: if_splits)
    with Rejected retry_rejected show ?thesis by blast
  next
    case (Resolved r)
    show ?thesis
    proof (cases "300 \<le> status r \<and> status r < 400 \<and> has_location r")
      case True
      with assms False Resolved have "new_URL env (the (location r)) (Some u) = Some u'"
        "st' = redirected (responded st u) u r u'"
        by (simp_all add: attempt_def Let_def responded_def split: option.splits)
      with True Resolved redirect [of r] show ?thesis by blast
    next
      case nr: False
      show ?thesis
      proof (cases "ok r")
        case True
        with assms False Resolved nr have "handle_content env (responded st u) u r = Again st' u'"
          by (simp add: attempt_def Let_def responded_def)
        then have h: "handleTextHtml env (responded st u) u r = Again st' u'" "is_html env r"
          by (rule handle_content_Again)+
        from handleTextHtml_Again [OF h(1)] obtain html
          where "st' = refreshed (read_body st u r) u u'" "followMetaHttpEquiv st"
            "body r = Some html"
            "meta_redirect env (fromHtmlIsomorphic env html) r = Inr (Some u')"
          by (auto simp: read_body_def responded_def)
        with True Resolved h(2) refresh [of r html] show ?thesis by blast
      next
        case nok: False
        with assms False Resolved nr
        have "int (retries (responded st u)) < maxRetries (responded st u)"
          "status r < 400 \<or> 500 \<le> status r"
          "retry (responded st u) u = Again st' u'"
          by (simp_all add: attempt_def Let_def responded_def split: if_splits)
        moreover from this have "0 < maxRetries st"
          by (simp add: responded_def record_event_def)
        ultimately show ?thesis
          using retry_status [of r] Resolved nok nr by blast
      qed
    qed
  qed
qed

lemma handleUnknown_cases:
  assumes "handleUnknown st u r ct = (x, st')"
  shows "x = Inr (response_url r)
    \<and> (st' = st \<or> st' = push (lost_hash_with_non_html_message u ct) st)"
  using assms by (auto simp: handleUnknown_def Let_def split: if_splits)

lemma handleTextHtml_Return_cases [consumes 1, case_names fast unreadable bad_refresh checked plain]:
  assumes "handleTextHtml env st u r = Return (x, st')"
  obtains
    (fast) "\<not> needs_html st u"
      "x = Inr (response_url r)" "st' = st"
  | (unreadable) "body r = None" "x = Inl (Native BodyUnreadable)"
      "st' = record_event (BodyRead (response_url r)) st"
  | (bad_refresh) html e where "body r = Some html" "followMetaHttpEquiv st"
      "meta_redirect env (fromHtmlIsomorphic env html) r = Inl e"
      "x = Inl e" "st' = record_event (BodyRead (response_url r)) st"
  | (checked) html where "body r = Some html" "checkAnchor st" "hash u \<noteq> []"
      "x = check_fragment env st' u r (fromHtmlIsomorphic env html)"
      "st' = record_event (BodyRead (response_url r)) st
        \<or> st' = (record_event (BodyRead (response_url r)) st)
              \<lparr>urls := Some (findUrls' env u (fromHtmlIsomorphic env html))\<rparr>"
      "followMetaHttpEquiv st \<longrightarrow> meta_redirect env (fromHtmlIsomorphic env html) r = Inr None"
  | (plain) html where "body r = Some html" "\<not> (checkAnchor st \<and> hash u \<noteq> [])"
      "x = Inr (with_hash (response_url r) (hash u))"
      "st' = record_event (BodyRead (response_url r)) st
        \<or> st' = (record_event (BodyRead (response_url r)) st)
              \<lparr>urls := Some (findUrls' env u (fromHtmlIsomorphic env html))\<rparr>"
      "followMetaHttpEquiv st \<longrightarrow> meta_redirect env (fromHtmlIsomorphic env html) r = Inr None"
proof (cases "\<not> needs_html st u")
  case True
  with assms have "x = Inr (response_url r)" "st' = st"
    by (simp_all add: handleTextHtml_def)
  with True fast show ?thesis by blast
next
  case slow: False
  show ?thesis
  proof (cases "body r")
    case None
    with assms slow have "x = Inl (Native BodyUnreadable)"
      "st' = record_event (BodyRead (response_url r)) st"
      by (simp_all add: handleTextHtml_def Let_def)
    with None unreadable show ?thesis by blast
  next
    case (Some html)
    let ?st = "record_event (BodyRead (response_url r)) st"
    let ?tree = "fromHtmlIsomorphic env html"
    show ?thesis
    proof (cases "if followMetaHttpEquiv st then meta_redirect env ?tree r else Inr None")
      case (Inl e)
      then have "followMetaHttpEquiv st" "meta_redirect env ?tree r = Inl e"
        by (simp_all split: if_splits)
      moreover from assms slow Some Inl have "x = Inl e" "st' = ?st"
        by (simp_all add: handleTextHtml_def Let_def)
      ultimately show ?thesis using bad_refresh Some by blast
    next
      case (Inr target)
      show ?thesis
      proof (cases target)
        case (Some redirect)
        with assms slow \<open>body r = Some html\<close> Inr show ?thesis
          by (simp add: handleTextHtml_def Let_def)
      next
        case None
        with Inr have m: "followMetaHttpEquiv st \<longrightarrow> meta_redirect env ?tree r = Inr None"
          by (simp split: if_splits)
        show ?thesis
        proof (cases "checkAnchor st \<and> hash u \<noteq> []")
          case True
          with assms slow \<open>body r = Some html\<close> Inr None
          have "x = check_fragment env st' u r ?tree"
            "st' = ?st \<or> st' = ?st\<lparr>urls := Some (findUrls' env u ?tree)\<rparr>"
            by (auto simp add: handleTextHtml_def Let_def split: if_splits)
          with True m checked \<open>body r = Some html\<close> show ?thesis by blast
        next
          case False
          with assms slow \<open>body r = Some html\<close> Inr None
          have "x = Inr (with_hash (response_url r) (hash u))"
            "st' = ?st \<or> st' = ?st\<lparr>urls := Some (findUrls' env u ?tree)\<rparr>"
            by (auto simp add: handleTextHtml_def Let_def split: if_splits)
          with False m plain \<open>body r = Some html\<close> show ?thesis by blast
        qed
      qed
    qed
  qed
qed

lemma handle_content_Return_cases [consumes 1, case_names unknown bad_media html]:
  assumes "handle_content env st u r = Return (x, st')"
  obtains
    (unknown) ct where "handleUnknown st u r ct = (x, st')" "\<not> is_html env r"
  | (bad_media) c where "content_type r = Some c" "parse_content_type env c = None"
      "x = Inl (Native (InvalidMediaType c))" "st' = st"
  | (html) "handleTextHtml env st u r = Return (x, st')"
proof (cases "content_type r = None \<or> content_type r = Some []")
  case True
  with assms have "handleUnknown st u r None = (x, st')" "\<not> is_html env r"
    by (auto simp: handle_content_def Let_def is_html_def)
  then show ?thesis by (rule unknown)
next
  case False
  then obtain c where c: "content_type r = Some c" "c \<noteq> []" by auto
  show ?thesis
  proof (cases "parse_content_type env c")
    case None
    with assms c have "x = Inl (Native (InvalidMediaType c))" "st' = st"
      by (simp_all add: handle_content_def Let_def)
    with c None bad_media show ?thesis by blast
  next
    case (Some type)
    show ?thesis
    proof (cases "type = ''text/html''")
      case True
      with assms c Some have "handleTextHtml env st u r = Return (x, st')"
        by (simp add: handle_content_def Let_def)
      then show ?thesis by (rule html)
    next
      case False
      with assms c Some have "handleUnknown st u r (Some c) = (x, st')" "\<not> is_html env r"
        by (simp_all add: handle_content_def Let_def is_html_def)
      then show ?thesis by (rule unknown)
    qed
  qed
qed

lemma attempt_Return_cases
  [consumes 1, case_names too_many fetch_failed bad_location dead content]:
  assumes "attempt env st u = Return (x, st')"
  obtains
    (too_many) "int (redirects st) > maxRedirects st"
      "x = Inl (Message (max_redirect_message u))" "st' = st"
  | (fetch_failed) error where "fetch env (requests (history st)) u = Rejected error"
      "\<not> int (retries st) < maxRetries st"
      "x = Inl (Message (fetch_message u error))" "st' = record_event (Fetched u) st"
  | (bad_location) r where "fetch env (requests (history st)) u = Resolved r"
      "300 \<le> status r \<and> status r < 400 \<and> has_location r"
      "new_URL env (the (location r)) (Some u) = None"
      "x = Inl (Native (InvalidUrl (the (location r))))" "st' = responded st u"
  | (dead) r where "fetch env (requests (history st)) u = Resolved r"
      "\<not> (300 \<le> status r \<and> status r < 400 \<and> has_location r)" "\<not> ok r"
      "\<not> (0 < maxRetries st \<and> (status r < 400 \<or> 500 \<le> status r))"
      "x = Inl (Message (dead_message r))" "st' = responded st u"
  | (content) r where "fetch env (requests (history st)) u = Resolved r"
      "\<not> (300 \<le> status r \<and> status r < 400 \<and> has_location r)" "ok r"
      "handle_content env (responded st u) u r = Return (x, st')"
proof (cases "int (redirects st) > maxRedirects st")
  case True
  with assms have "x = Inl (Message (max_redirect_message u))" "st' = st"
    by (simp_all add: attempt_def)
  with True too_many show ?thesis by blast
next
  case False
  show ?thesis
  proof (cases "fetch env (requests (history st)) u")
    case (Rejected error)
    with assms False have "\<not> int (retries st) < maxRetries st"
      "x = Inl (Message (fetch_message u error))" "st' = record_event (Fetched u) st"
      by (simp_all add: attempt_def Let_def retry_def split: if_splits)
    with Rejected fetch_failed show ?thesis by blast
  next
    case (Resolved r)
    show ?thesis
    proof (cases "300 \<le> status r \<and> status r < 400 \<and> has_location r")
      case True
      with assms False Resolved have "new_URL env (the (location r)) (Some u) = None"
        "x = Inl (Native (InvalidUrl (the (location r))))" "st' = responded st u"
        by (simp_all add: attempt_def Let_def responded_def split: option.splits)
      with True Resolved bad_location [of r] show ?thesis by blast
    next
      case nr: False
      show ?thesis
      proof (cases "ok r")
        case True
        with assms False Resolved nr
        have "handle_content env (responded st u) u r = Return (x, st')"
          by (simp add: attempt_def Let_def responded_def)
        with True Resolved nr content [of r] show ?thesis by blast
      next
        case nok: False
        with assms False Resolved nr
        have "\<not> (0 < maxRetries st \<and> (status r < 400 \<or> 500 \<le> status r))"
          "x = Inl (Message (dead_message r))" "st' = responded st u"
          by (simp_all add: attempt_def Let_def responded_def retry_def split: if_splits)
        with dead [of r] Resolved nr nok show ?thesis by blast
      qed
    qed
  qed
qed

lemma run_invariant:
  assumes ret: "\<And>st u x st'. I st \<Longrightarrow> attempt env st u = Return (x, st') \<Longrightarrow> Q x st'"
    and again: "\<And>st u st' u'. I st \<Longrightarrow> attempt env st u = Again st' u' \<Longrightarrow> I st'"
  shows "I st \<Longrightarrow> deadOrAliveInternal calls env st u = Some (x, st') \<Longrightarrow> Q x st'"
proof (induction calls arbitrary: st u)
  case 0
  then show ?case by simp
next
  case (Suc calls)
  show ?case
  proof (cases "attempt env st u")
    case (Return ended)
    with Suc.prems ret [of st u x st'] show ?thesis by simp
  next
    case (Again st1 u1)
    with Suc.prems again have "I st1" by blast
    with Suc.IH [of st1 u1] Suc.prems Again show ?thesis by simp
  qed
qed

lemma attempt_too_many:
  "int (redirects st) > maxRedirects st \<Longrightarrow>
   attempt env st u = Return (Inl (Message (max_redirect_message u)), st)"
  by (simp add: attempt_def)

lemma attempt_rejected:
  assumes "\<not> int (redirects st) > maxRedirects st"
    and "fetch env (requests (history st)) u = Rejected error"
  shows "attempt env st u =
    (if int (retries st) < maxRetries st then retry (record_event (Fetched u) st) u
     else Return (Inl (Message (fetch_message u error)), record_event (Fetched u) st))"
  using assms by (simp add: attempt_def Let_def)


lemma attempt_not_ok:
  assumes "\<not> int (redirects st) > maxRedirects st"
    and "fetch env (requests (history st)) u = Resolved r"
    and "\<not> (300 \<le> status r \<and> status r < 400 \<and> has_location r)" and "\<not> ok r"
  shows "attempt env st u =
    (if 0 < maxRetries st \<and> (status r < 400 \<or> 500 \<le> status r)
     then retry (responded st u) u
     else Return (Inl (Message (dead_message r)), responded st u))"
proof -
  have "(if 300 \<le> status r \<and> status r < 400 \<and> has_location r then a else b) = b" for a b :: step
    using assms(3) by (rule if_not_P)
  then show ?thesis
    unfolding attempt_def Let_def responded_def using assms(1,2,4) by auto
qed

lemma attempt_ok:
  assumes "\<not> int (redirects st) > maxRedirects st"
    and "fetch env (requests (history st)) u = Resolved r" and "ok r"
  shows "attempt env st u = handle_content env (responded st u) u r"
proof -
  have "\<not> 300 \<le> status r" using assms(3) by (simp add: ok_def)
  then show ?thesis
    using assms by (simp add: attempt_def Let_def responded_def)
qed

subsection \<open>The fast path\<close>

text \<open>
  C6. With URL discovery and the following of \<^verbatim>\<open>meta\<close> refreshes off, and anchor
  checking off or no fragment in the current URL, \<^verbatim>\<open>handleTextHtml\<close> returns the URL
  of the response and leaves the state as it is: no body is read, whatever the response,
  its body and the HTML parser are, and whether or not the URL has a fragment when anchor
  checking is off. A resolution that receives such an HTML response then ends with that
  URL, and the request is all it has added to the record of events.
\<close>

theorem fast_path_leaves_body_unread:
  assumes "\<not> findUrls st" and "\<not> followMetaHttpEquiv st"
    and "\<not> checkAnchor st \<or> hash u = []"
  shows "handleTextHtml env st u r = Return (Inr (response_url r), st)
    \<and> (\<not> int (redirects st) > maxRedirects st
        \<and> fetch env (requests (history st)) u = Resolved r \<and> ok r
        \<and> content_type r = Some c \<and> c \<noteq> [] \<and> parse_content_type env c = Some ''text/html''
       \<longrightarrow> deadOrAliveInternal (Suc calls) env st u = Some (Inr (response_url r), responded st u)
           \<and> history (responded st u) = history st @ [Fetched u])"
proof -
  have n: "\<not> needs_html s u" if "findUrls s = findUrls st"
    "followMetaHttpEquiv s = followMetaHttpEquiv st" "checkAnchor s = checkAnchor st" for s
    using assms that by (auto simp: needs_html_def)
  have a: "handleTextHtml env st u r = Return (Inr (response_url r), st)"
    using n [of st] by (simp add: handleTextHtml_def)
  have b: "handleTextHtml env (responded st u) u r = Return (Inr (response_url r), responded st u)"
    using n [of "responded st u"] by (simp add: handleTextHtml_def responded_def)
  have c: "deadOrAliveInternal (Suc calls) env st u = Some (Inr (response_url r), responded st u)"
    if "\<not> int (redirects st) > maxRedirects st" "fetch env (requests (history st)) u = Resolved r"
      "ok r" "content_type r = Some c" "c \<noteq> []" "parse_content_type env c = Some ''text/html''"
  proof -
    have "attempt env st u = handle_content env (responded st u) u r"
      using that by (simp add: attempt_ok)
    also have "\<dots> = Return (Inr (response_url r), responded st u)"
      using that b by (simp add: handle_content_def Let_def)
    finally show ?thesis by simp
  qed
  show ?thesis
    using a c by (simp add: responded_def)
qed

lemmas example_defs =
  example_platform_def example_response_def example_url_def initial_state_def emptyOptions_def

theorem fast_path_leaves_body_unread_witness:
  "\<not> findUrls (initial_state (Some fast_options))
   \<and> \<not> followMetaHttpEquiv (initial_state (Some fast_options))
   \<and> \<not> checkAnchor (initial_state (Some fast_options))
   \<and> hash ((example_url ''/'')\<lparr>fragment := Some ''hi''\<rparr>) = ''#hi''
   \<and> deadOrAliveInternal 1 (example_platform fast_network (\<lambda>html. Root []))
        (initial_state (Some fast_options)) ((example_url ''/'')\<lparr>fragment := Some ''hi''\<rparr>)
      = Some (Inr (example_url ''/''),
              responded (initial_state (Some fast_options)) ((example_url ''/'')\<lparr>fragment := Some ''hi''\<rparr>))
   \<and> history (responded (initial_state (Some fast_options)) ((example_url ''/'')\<lparr>fragment := Some ''hi''\<rparr>))
      = [Fetched ((example_url ''/'')\<lparr>fragment := Some ''hi''\<rparr>)]"
proof -
  let ?st = "initial_state (Some fast_options)"
  let ?u = "(example_url ''/'')\<lparr>fragment := Some ''hi''\<rparr>"
  let ?env = "example_platform fast_network (\<lambda>html. Root [])"
  let ?r = "example_response 200 ''/'' None (Some ''text/html'') (Some ''ok'')"
  have o: "\<not> findUrls ?st" "\<not> followMetaHttpEquiv ?st" "\<not> checkAnchor ?st"
    by (simp_all add: example_defs fast_options_def)
  have h: "\<not> int (redirects ?st) > maxRedirects ?st
      \<and> fetch ?env (requests (history ?st)) ?u = Resolved ?r \<and> ok ?r
      \<and> content_type ?r = Some ''text/html'' \<and> ''text/html'' \<noteq> []
      \<and> parse_content_type ?env ''text/html'' = Some ''text/html''"
    by (simp add: example_defs fast_options_def fast_network_def ok_def)
  have u: "response_url ?r = example_url ''/''"
    by (simp add: example_defs)
  have "hash ?u = ''#hi''" by (simp add: hash_def example_url_def)
  then show ?thesis
    using fast_path_leaves_body_unread [of ?st ?u ?env ?r "''text/html''" 0] o h u
    by (simp add: initial_state_def)
qed

subsection \<open>An input that is no URL\<close>

text \<open>
  C10. For an input string that the URL parser rejects, \<^verbatim>\<open>deadOrAlive\<close> returns,
  whatever the number of calls allowed: the result is dead, its URL is absent, its only
  message is the error of the URL parser, which is no message of the package, and no
  request has been made.
\<close>

theorem unparsable_input_is_dead:
  assumes "new_URL env input None = None"
  shows "deadOrAlive calls env (Text_href input) given =
      Some \<lparr>result_messages = [Native (InvalidUrl input)],
            result_permanent = None,
            result_status = Dead,
            result_url = None,
            result_urls = None\<rparr>
    \<and> (\<exists>st. resolve calls env (Text_href input) given = Some (Inl (Native (InvalidUrl input)), st)
          \<and> history st = [])
    \<and> (\<forall>m. Native (InvalidUrl input) \<noteq> Message m)"
  using assms by (simp add: deadOrAlive_def resolve_def Let_def initial_state_def)

theorem unparsable_input_is_dead_witness:
  "new_URL (example_platform fast_network (\<lambda>html. Root [])) ''not a url'' None = None
   \<and> deadOrAlive 0 (example_platform fast_network (\<lambda>html. Root [])) (Text_href ''not a url'') None =
      Some \<lparr>result_messages = [Native (InvalidUrl ''not a url'')],
            result_permanent = None,
            result_status = Dead,
            result_url = None,
            result_urls = None\<rparr>"
proof -
  have p: "new_URL (example_platform fast_network (\<lambda>html. Root [])) ''not a url'' None = None"
    by (simp add: example_platform_def example_URL_def Let_def)
  show ?thesis
    using p unparsable_input_is_dead [OF p, of 0 None] by simp
qed

subsection \<open>Permanence\<close>

lemma responded_fields [simp]:
  "anchorAllowlist (responded st u) = anchorAllowlist st"
  "checkAnchor (responded st u) = checkAnchor st"
  "findUrls (responded st u) = findUrls st"
  "followMetaHttpEquiv (responded st u) = followMetaHttpEquiv st"
  "maxRedirects (responded st u) = maxRedirects st"
  "maxRetries (responded st u) = maxRetries st"
  "messages (responded st u) = messages st"
  "permanent (responded st u) = permanent st"
  "resolveClobberPrefix (responded st u) = resolveClobberPrefix st"
  "redirects (responded st u) = redirects st"
  "retries (responded st u) = 0"
  "sleep (responded st u) = sleep st"
  "urls (responded st u) = urls st"
  "history (responded st u) = history st @ [Fetched u]"
  by (simp_all add: responded_def)

lemma redirected_fields [simp]:
  "anchorAllowlist (redirected st u r v) = anchorAllowlist st"
  "checkAnchor (redirected st u r v) = checkAnchor st"
  "findUrls (redirected st u r v) = findUrls st"
  "followMetaHttpEquiv (redirected st u r v) = followMetaHttpEquiv st"
  "maxRedirects (redirected st u r v) = maxRedirects st"
  "maxRetries (redirected st u r v) = maxRetries st"
  "resolveClobberPrefix (redirected st u r v) = resolveClobberPrefix st"
  "redirects (redirected st u r v) = redirects st + 1"
  "retries (redirected st u r v) = retries st"
  "sleep (redirected st u r v) = sleep st"
  "urls (redirected st u r v) = urls st"
  "history (redirected st u r v) = history st"
  by (simp_all add: redirected_def Let_def)

lemma refreshed_fields [simp]:
  "anchorAllowlist (refreshed st u v) = anchorAllowlist st"
  "checkAnchor (refreshed st u v) = checkAnchor st"
  "findUrls (refreshed st u v) = findUrls st"
  "followMetaHttpEquiv (refreshed st u v) = followMetaHttpEquiv st"
  "maxRedirects (refreshed st u v) = maxRedirects st"
  "maxRetries (refreshed st u v) = maxRetries st"
  "permanent (refreshed st u v) = Some False"
  "resolveClobberPrefix (refreshed st u v) = resolveClobberPrefix st"
  "redirects (refreshed st u v) = redirects st + 1"
  "retries (refreshed st u v) = retries st"
  "sleep (refreshed st u v) = sleep st"
  "urls (refreshed st u v) = urls st"
  "history (refreshed st u v) = history st"
  by (simp_all add: refreshed_def Let_def)

lemma read_body_fields [simp]:
  "anchorAllowlist (read_body st u r) = anchorAllowlist st"
  "checkAnchor (read_body st u r) = checkAnchor st"
  "findUrls (read_body st u r) = findUrls st"
  "followMetaHttpEquiv (read_body st u r) = followMetaHttpEquiv st"
  "maxRedirects (read_body st u r) = maxRedirects st"
  "maxRetries (read_body st u r) = maxRetries st"
  "messages (read_body st u r) = messages st"
  "permanent (read_body st u r) = permanent st"
  "resolveClobberPrefix (read_body st u r) = resolveClobberPrefix st"
  "redirects (read_body st u r) = redirects st"
  "retries (read_body st u r) = 0"
  "sleep (read_body st u r) = sleep st"
  "urls (read_body st u r) = urls st"
  "history (read_body st u r) = history st @ [Fetched u, BodyRead (response_url r)]"
  by (simp_all add: read_body_def)

lemma retry_Again:
  "retry st u = Again st' u' \<longleftrightarrow>
     u' = u \<and> st' = record_event (Slept (sleep st (retries st + 1))) (st\<lparr>retries := retries st + 1\<rparr>)"
  by (auto simp: retry_def Let_def)

lemma settled_simps [simp]:
  "settled (push m st) = settled st"
  "settled (st\<lparr>retries := k\<rparr>) = settled st"
  "settled (st\<lparr>urls := x\<rparr>) = settled st"
  "settled (record_event e st) = settled st"
  "settled (responded st u) = settled st"
  "settled (read_body st u r) = settled st"
  "settled (refreshed st u v)"
  "settled st \<Longrightarrow> settled (redirected st u r v)"
  by (simp_all add: settled_def responded_def read_body_def refreshed_def redirected_def Let_def)

lemma attempt_Again_settled:
  assumes "attempt env st u = Again st' u'" and "settled st"
  shows "settled st'"
  using assms by (cases rule: attempt_Again_cases) (simp_all add: retry_Again)

lemma attempt_Return_settled:
  assumes "attempt env st u = Return (x, st')" and "settled st"
  shows "settled st'"
  using assms
proof (cases rule: attempt_Return_cases)
  case (content r)
  from content(4) show ?thesis
  proof (cases rule: handle_content_Return_cases)
    case (unknown ct)
    then show ?thesis
      using assms(2) handleUnknown_cases [OF unknown(1)] by auto
  next
    case (bad_media c)
    then show ?thesis using assms(2) by simp
  next
    case html
    then show ?thesis
      using assms(2) by (cases rule: handleTextHtml_Return_cases) auto
  qed
qed (use assms(2) in simp_all)

lemma run_settled:
  "settled st \<Longrightarrow> deadOrAliveInternal calls env st u = Some (x, st') \<Longrightarrow> settled st'"
  by (rule run_invariant [where I = settled and Q = "\<lambda>x. settled"])
     (auto intro: attempt_Return_settled attempt_Again_settled)

lemma initial_state_fields [simp]:
  "messages (initial_state given) = []"
  "permanent (initial_state given) = None"
  "redirects (initial_state given) = 0"
  "retries (initial_state given) = 0"
  "urls (initial_state given) = None"
  "history (initial_state given) = []"
  by (simp_all add: initial_state_def Let_def)

lemma deadOrAlive_resolve:
  assumes "deadOrAlive calls env target given = Some res"
  obtains x st where "resolve calls env target given = Some (x, st)"
    and "result_permanent res = permanent st"
    and "result_messages res = (case x of Inl c \<Rightarrow> [c] | Inr v \<Rightarrow> []) @ map Message (messages st)"
    and "result_status res = (case x of Inl c \<Rightarrow> Dead | Inr v \<Rightarrow> Alive)"
    and "result_url res = (case x of Inl c \<Rightarrow> None | Inr v \<Rightarrow> Some (href v))"
    and "result_urls res = urls st"
  using assms unfolding deadOrAlive_def
  by (auto split: option.splits sum.splits prod.splits)

lemma visited_append: "visited (h @ h') = visited h @ visited h'"
  by (induction h rule: visited.induct) simp_all

lemma requests_visited: "requests h = length (visited h)"
  unfolding requests_def by (induction h rule: visited.induct) simp_all

lemma hops_from_append:
  "hops_from env follow n (us @ vs) =
     hops_from env follow n us @ hops_from env follow (n + length us) vs"
  by (induction us arbitrary: n) simp_all

lemma hops_snoc:
  "visited h' = visited h @ [u] \<Longrightarrow>
   hops env follow h' =
     hops env follow h
     @ (case occurred env follow u (fetch env (requests h) u) of None \<Rightarrow> [] | Some x \<Rightarrow> [x])"
  by (simp add: hops_def hops_from_append requests_visited)

lemma permanence_snoc:
  "permanence (hs @ [h]) = Some (permanence hs \<noteq> Some False \<and> is_permanent h)"
  by (auto simp: permanence_def)

lemma linked_snoc:
  "linked env follow n (us @ [u, v]) =
     (linked env follow n (us @ [u]) \<and> v = next_url env follow (n + length us) u)"
proof (induction us arbitrary: n)
  case Nil
  then show ?case by simp
next
  case (Cons a us)
  then show ?case by (cases us) auto
qed

lemma linked_butlast: "linked env follow n (us @ [u]) \<Longrightarrow> linked env follow n us"
proof (induction us arbitrary: n)
  case Nil
  then show ?case by simp
next
  case (Cons a us)
  then show ?case by (cases us) auto
qed

lemma occurred_simps:
  "occurred env follow u (Rejected error) = None"
  "300 \<le> status r \<Longrightarrow> status r < 400 \<Longrightarrow> has_location r \<Longrightarrow>
     new_URL env (the (location r)) (Some u) = Some v \<Longrightarrow>
     occurred env follow u (Resolved r) = Some (HttpRedirect (status r) v)"
  "300 \<le> status r \<and> status r < 400 \<and> has_location r \<Longrightarrow>
     new_URL env (the (location r)) (Some u) = None \<Longrightarrow>
     occurred env follow u (Resolved r) = None"
  "\<not> ok r \<Longrightarrow> \<not> (300 \<le> status r \<and> status r < 400 \<and> has_location r) \<Longrightarrow>
     occurred env follow u (Resolved r) = None"
  "ok r \<Longrightarrow> is_html env r \<Longrightarrow> body r = Some html \<Longrightarrow>
     meta_redirect env (fromHtmlIsomorphic env html) r = Inr (Some v) \<Longrightarrow>
     occurred env True u (Resolved r) = Some (MetaRedirect v)"
  "ok r \<Longrightarrow> \<not> is_html env r \<Longrightarrow> occurred env follow u (Resolved r) = None"
  "ok r \<Longrightarrow> body r = None \<Longrightarrow> occurred env follow u (Resolved r) = None"
  "ok r \<Longrightarrow> occurred env False u (Resolved r) = None"
  "ok r \<Longrightarrow> body r = Some html \<Longrightarrow> meta_redirect env (fromHtmlIsomorphic env html) r = Inl e \<Longrightarrow>
     occurred env follow u (Resolved r) = None"
  "ok r \<Longrightarrow> body r = Some html \<Longrightarrow> meta_redirect env (fromHtmlIsomorphic env html) r = Inr None \<Longrightarrow>
     occurred env follow u (Resolved r) = None"
  by (auto simp: occurred_def http_hop_def meta_hop_def ok_def split: option.splits)

lemma attempt_Again_pass:
  assumes "attempt env st u = Again st' v"
  shows "visited (history st') = visited (history st) @ [u]
    \<and> followMetaHttpEquiv st' = followMetaHttpEquiv st
    \<and> v = next_url env (followMetaHttpEquiv st) (requests (history st)) u
    \<and> permanent st' =
      (case occurred env (followMetaHttpEquiv st) u (fetch env (requests (history st)) u) of
         None \<Rightarrow> permanent st
       | Some h \<Rightarrow> Some (permanent st \<noteq> Some False \<and> is_permanent h))"
  using assms
proof (cases rule: attempt_Again_cases)
  case (retry_rejected error)
  then show ?thesis
    by (auto simp: retry_Again visited_append next_url_def occurred_simps)
next
  case (redirect r)
  then have "occurred env (followMetaHttpEquiv st) u (fetch env (requests (history st)) u)
      = Some (HttpRedirect (status r) v)"
    by (simp add: occurred_simps)
  with redirect show ?thesis
    by (auto simp: visited_append next_url_def redirected_def Let_def)
next
  case (retry_status r)
  then have "occurred env (followMetaHttpEquiv st) u (fetch env (requests (history st)) u) = None"
    by (simp add: occurred_simps)
  with retry_status show ?thesis
    by (auto simp: retry_Again visited_append next_url_def)
next
  case (refresh r html)
  then have "occurred env (followMetaHttpEquiv st) u (fetch env (requests (history st)) u)
      = Some (MetaRedirect v)"
    by (simp add: occurred_simps)
  with refresh show ?thesis
    by (auto simp: visited_append next_url_def)
qed

lemma handleTextHtml_Return_pass:
  assumes "handleTextHtml env st u r = Return (x, st')" and "ok r"
  shows "visited (history st') = visited (history st)
    \<and> followMetaHttpEquiv st' = followMetaHttpEquiv st
    \<and> permanent st' = permanent st
    \<and> occurred env (followMetaHttpEquiv st) u (Resolved r) = None"
  using assms(1)
proof (cases rule: handleTextHtml_Return_cases)
  case fast
  then have "\<not> followMetaHttpEquiv st" by (simp add: needs_html_def)
  with fast assms(2) show ?thesis by (simp add: occurred_simps)
next
  case unreadable
  with assms(2) show ?thesis by (simp add: occurred_simps visited_append)
next
  case (bad_refresh html e)
  with assms(2) show ?thesis by (simp add: occurred_simps visited_append)
next
  case (checked html)
  then have "occurred env (followMetaHttpEquiv st) u (Resolved r) = None"
    using assms(2) by (cases "followMetaHttpEquiv st") (simp_all add: occurred_simps)
  with checked show ?thesis by (auto simp: visited_append)
next
  case (plain html)
  then have "occurred env (followMetaHttpEquiv st) u (Resolved r) = None"
    using assms(2) by (cases "followMetaHttpEquiv st") (simp_all add: occurred_simps)
  with plain show ?thesis by (auto simp: visited_append)
qed

lemma handle_content_Return_pass:
  assumes "handle_content env st u r = Return (x, st')" and "ok r"
  shows "visited (history st') = visited (history st)
    \<and> followMetaHttpEquiv st' = followMetaHttpEquiv st
    \<and> permanent st' = permanent st
    \<and> occurred env (followMetaHttpEquiv st) u (Resolved r) = None"
  using assms(1)
proof (cases rule: handle_content_Return_cases)
  case (unknown ct)
  with assms(2) handleUnknown_cases [OF unknown(1)] show ?thesis
    by (auto simp: occurred_simps)
next
  case (bad_media c)
  then have "\<not> is_html env r" by (simp add: is_html_def)
  with bad_media assms(2) show ?thesis by (simp add: occurred_simps)
next
  case html
  then show ?thesis using assms(2) by (rule handleTextHtml_Return_pass)
qed

lemma attempt_Return_pass:
  assumes "attempt env st u = Return (x, st')"
  shows "followMetaHttpEquiv st' = followMetaHttpEquiv st \<and> permanent st' = permanent st
    \<and> (history st' = history st
       \<or> visited (history st') = visited (history st) @ [u]
          \<and> occurred env (followMetaHttpEquiv st) u (fetch env (requests (history st)) u) = None)"
  using assms
proof (cases rule: attempt_Return_cases)
  case too_many
  then show ?thesis by simp
next
  case (fetch_failed error)
  then show ?thesis by (simp add: occurred_simps visited_append)
next
  case (bad_location r)
  then show ?thesis by (simp add: occurred_simps visited_append)
next
  case (dead r)
  then show ?thesis by (simp add: occurred_simps visited_append)
next
  case (content r)
  from handle_content_Return_pass [OF content(4,3)] content(1) show ?thesis
    by (simp add: visited_append)
qed

lemma run_traced:
  assumes "deadOrAliveInternal calls env st u = Some (x, st')"
    and "permanent st = permanence (hops env (followMetaHttpEquiv st) (history st))"
    and "linked env (followMetaHttpEquiv st) 0 (visited (history st) @ [u])"
  shows "permanent st' = permanence (hops env (followMetaHttpEquiv st) (history st'))
    \<and> linked env (followMetaHttpEquiv st) 0 (visited (history st'))
    \<and> (visited (history st') = visited (history st)
       \<or> prefix (visited (history st) @ [u]) (visited (history st')))"
  using assms
proof (induction calls arbitrary: st u)
  case 0
  then show ?case by simp
next
  case (Suc calls)
  let ?follow = "followMetaHttpEquiv st"
  let ?occ = "occurred env ?follow u (fetch env (requests (history st)) u)"
  show ?case
  proof (cases "attempt env st u")
    case (Return ended)
    with Suc.prems(1) have r: "attempt env st u = Return (x, st')" by simp
    from attempt_Return_pass [OF r]
    have p: "permanent st' = permanent st"
      and h: "history st' = history st
        \<or> visited (history st') = visited (history st) @ [u] \<and> ?occ = None"
      by simp_all
    from h show ?thesis
    proof
      assume "history st' = history st"
      with p Suc.prems(2,3) show ?thesis
        by (auto dest: linked_butlast)
    next
      assume v: "visited (history st') = visited (history st) @ [u] \<and> ?occ = None"
      then have "hops env ?follow (history st') = hops env ?follow (history st)"
        using hops_snoc [of "history st'" "history st" u env ?follow] by simp
      with v p Suc.prems(2,3) show ?thesis by simp
    qed
  next
    case (Again st1 v)
    from attempt_Again_pass [OF Again]
    have v: "visited (history st1) = visited (history st) @ [u]"
      and f: "followMetaHttpEquiv st1 = ?follow"
      and n: "v = next_url env ?follow (requests (history st)) u"
      and p: "permanent st1 =
        (case ?occ of None \<Rightarrow> permanent st
         | Some h \<Rightarrow> Some (permanent st \<noteq> Some False \<and> is_permanent h))"
      by simp_all
    have h: "hops env ?follow (history st1) =
        hops env ?follow (history st) @ (case ?occ of None \<Rightarrow> [] | Some x \<Rightarrow> [x])"
      using v by (rule hops_snoc)
    have 1: "permanent st1 = permanence (hops env (followMetaHttpEquiv st1) (history st1))"
      unfolding f h p using Suc.prems(2)
      by (cases ?occ) (simp_all add: permanence_snoc)
    have 2: "linked env (followMetaHttpEquiv st1) 0 (visited (history st1) @ [v])"
      unfolding f v using Suc.prems(3) n
      by (simp add: linked_snoc requests_visited)
    from Suc.prems(1) Again have "deadOrAliveInternal calls env st1 v = Some (x, st')"
      by simp
    from Suc.IH [OF this 1 2]
    have r: "permanent st' = permanence (hops env ?follow (history st'))"
      "linked env ?follow 0 (visited (history st'))"
      "visited (history st') = visited (history st) @ [u]
        \<or> prefix ((visited (history st) @ [u]) @ [v]) (visited (history st'))"
      unfolding f v by simp_all
    from r(3) have "prefix (visited (history st) @ [u]) (visited (history st'))"
      using append_prefixD by fastforce
    with r(1,2) show ?thesis by simp
  qed
qed

lemma resolve_traced:
  assumes "resolve calls env target given = Some (x, st)"
  shows "permanent st = permanence (hops env (followMetaHttpEquiv (initial_state given)) (history st))
    \<and> linked env (followMetaHttpEquiv (initial_state given)) 0 (visited (history st))
    \<and> (visited (history st) = [] \<or> names env target (hd (visited (history st))))"
proof -
  let ?st = "initial_state given"
  have i: "permanent ?st = permanence (hops env (followMetaHttpEquiv ?st) (history ?st))"
    "linked env (followMetaHttpEquiv ?st) 0 (visited (history ?st) @ [u])" for u
    by (simp_all add: permanence_def hops_def)
  have run: ?thesis if "deadOrAliveInternal calls env ?st u = Some (x, st)"
    and "names env target u" for u
    using run_traced [OF that(1) i] that(2) by (auto simp: prefix_def)
  show ?thesis
  proof (cases target)
    case (Text_href input)
    show ?thesis
    proof (cases "new_URL env input None")
      case None
      with assms Text_href show ?thesis
        by (auto simp: resolve_def Let_def permanence_def hops_def)
    next
      case (Some u)
      with assms Text_href show ?thesis
        by (intro run [of u]) (simp_all add: resolve_def Let_def names_def)
    qed
  next
    case (URL_href u)
    with assms show ?thesis
      by (intro run [of u]) (simp_all add: resolve_def Let_def names_def)
  qed
qed

lemma permanence_cases:
  "(permanence hs = None) = (hs = [])"
  "(permanence hs = Some True) =
     (hs \<noteq> [] \<and> (\<forall>h \<in> set hs. \<exists>s v. h = HttpRedirect s v \<and> (s = 301 \<or> s = 308)))"
  "(permanence hs = Some False) =
     (\<exists>h \<in> set hs. (\<exists>v. h = MetaRedirect v) \<or> (\<exists>s v. h = HttpRedirect s v \<and> s \<noteq> 301 \<and> s \<noteq> 308))"
proof -
  have p: "is_permanent h = (\<exists>s v. h = HttpRedirect s v \<and> (s = 301 \<or> s = 308))" for h
    by (cases h) simp_all
  have q: "(\<not> is_permanent h) =
    ((\<exists>v. h = MetaRedirect v) \<or> (\<exists>s v. h = HttpRedirect s v \<and> s \<noteq> 301 \<and> s \<noteq> 308))" for h
    by (cases h) simp_all
  show "(permanence hs = None) = (hs = [])"
    by (simp add: permanence_def)
  show "(permanence hs = Some True) =
     (hs \<noteq> [] \<and> (\<forall>h \<in> set hs. \<exists>s v. h = HttpRedirect s v \<and> (s = 301 \<or> s = 308)))"
    by (simp add: permanence_def list_all_iff p)
  have "(permanence hs = Some False) = (\<exists>h \<in> set hs. \<not> is_permanent h)"
    by (auto simp: permanence_def list_all_iff)
  then show "(permanence hs = Some False) =
     (\<exists>h \<in> set hs. (\<exists>v. h = MetaRedirect v) \<or> (\<exists>s v. h = HttpRedirect s v \<and> s \<noteq> 301 \<and> s \<noteq> 308))"
    unfolding q .
qed

text \<open>
  C4. When a resolution ends, \<^verbatim>\<open>permanent\<close> is what the redirects call for that
  occurred on the answers of the network to the requests made: it is true exactly when at
  least one redirect occurred and every one of them is an HTTP redirect with status 301
  or 308, so that the first one is, every later HTTP redirect is, and none is a
  \<^verbatim>\<open>meta\<close> refresh; it is false exactly when some redirect, at any position, is a
  \<^verbatim>\<open>meta\<close> refresh or an HTTP redirect with another status; and it is unset exactly
  when no redirect occurred. The requests made are those to which the network leads from
  the URL given: each one follows the redirect that occurred on the answer before it, or
  asks for the same URL again. The \<^verbatim>\<open>permanent\<close> of the result is that of the state
  in which the resolution ends. And from a state in which it is false, it is false in
  whatever state the resolution ends: it is never set back to true.
\<close>

theorem permanent_follows_redirects:
  "(resolve calls env target given = Some (x, st)
      \<and> hs = hops env (followMetaHttpEquiv (initial_state given)) (history st) \<longrightarrow>
        ((permanent st = Some True) =
           (hs \<noteq> [] \<and> (\<forall>h \<in> set hs. \<exists>s v. h = HttpRedirect s v \<and> (s = 301 \<or> s = 308))))
      \<and> ((permanent st = Some False) =
           (\<exists>h \<in> set hs.
              (\<exists>v. h = MetaRedirect v) \<or> (\<exists>s v. h = HttpRedirect s v \<and> s \<noteq> 301 \<and> s \<noteq> 308)))
      \<and> ((permanent st = None) = (hs = []))
      \<and> linked env (followMetaHttpEquiv (initial_state given)) 0 (visited (history st))
      \<and> (visited (history st) = [] \<or> names env target (hd (visited (history st)))))
   \<and> (deadOrAlive calls env target given = Some res \<longrightarrow>
        (\<exists>x st. resolve calls env target given = Some (x, st)
           \<and> result_permanent res = permanent st))
   \<and> (permanent st0 = Some False \<and> deadOrAliveInternal calls env st0 u = Some (x', st')
        \<longrightarrow> permanent st' = Some False)"
proof (intro conjI impI)
  assume a: "resolve calls env target given = Some (x, st)
      \<and> hs = hops env (followMetaHttpEquiv (initial_state given)) (history st)"
  then have t: "permanent st = permanence hs"
    "linked env (followMetaHttpEquiv (initial_state given)) 0 (visited (history st))"
    "visited (history st) = [] \<or> names env target (hd (visited (history st)))"
    using resolve_traced [of calls env target given x st] by simp_all
  show "(permanent st = Some True) =
      (hs \<noteq> [] \<and> (\<forall>h \<in> set hs. \<exists>s v. h = HttpRedirect s v \<and> (s = 301 \<or> s = 308)))"
    unfolding t(1) by (rule permanence_cases)
  show "(permanent st = Some False) =
      (\<exists>h \<in> set hs.
         (\<exists>v. h = MetaRedirect v) \<or> (\<exists>s v. h = HttpRedirect s v \<and> s \<noteq> 301 \<and> s \<noteq> 308))"
    unfolding t(1) by (rule permanence_cases)
  show "(permanent st = None) = (hs = [])"
    unfolding t(1) by (rule permanence_cases)
  show "linked env (followMetaHttpEquiv (initial_state given)) 0 (visited (history st))"
    by (rule t(2))
  show "visited (history st) = [] \<or> names env target (hd (visited (history st)))"
    by (rule t(3))
next
  assume "deadOrAlive calls env target given = Some res"
  then obtain y s where "resolve calls env target given = Some (y, s)"
    and "result_permanent res = permanent s"
    by (rule deadOrAlive_resolve)
  then show "\<exists>x st. resolve calls env target given = Some (x, st)
      \<and> result_permanent res = permanent st"
    by auto
next
  assume "permanent st0 = Some False \<and> deadOrAliveInternal calls env st0 u = Some (x', st')"
  then show "permanent st' = Some False"
    using run_settled [of st0 calls env u x' st'] by (simp add: settled_def)
qed

theorem permanent_follows_redirects_witness:
  "deadOrAlive 3 (example_platform refreshing_network refreshing_document)
      (URL_href (example_url ''/0'')) None =
     Some \<lparr>result_messages = [], result_permanent = Some False, result_status = Alive,
           result_url = Some ''https://example.com/2'', result_urls = None\<rparr>
   \<and> map_option (\<lambda>(x, st). visited (history st))
        (resolve 3 (example_platform refreshing_network refreshing_document)
          (URL_href (example_url ''/0'')) None) =
     Some [example_url ''/0'', example_url ''/1'', example_url ''/2'']
   \<and> map_option
        (\<lambda>(x, st). hops (example_platform refreshing_network refreshing_document)
           (followMetaHttpEquiv (initial_state None)) (history st))
        (resolve 3 (example_platform refreshing_network refreshing_document)
          (URL_href (example_url ''/0'')) None) =
     Some [HttpRedirect 301 (example_url ''/1''), MetaRedirect (example_url ''/2'')]
   \<and> map_option (\<lambda>(x, st). permanent st)
        (resolve 3 (example_platform refreshing_network refreshing_document)
          (URL_href (example_url ''/0'')) None) = Some (Some False)
   \<and> deadOrAlive 2 (example_platform refreshing_network refreshing_document)
      (URL_href (example_url ''/0''))
      (Some (emptyOptions\<lparr>opt_followMetaHttpEquiv := Some False, opt_findUrls := Some False\<rparr>)) =
     Some \<lparr>result_messages = [], result_permanent = Some True, result_status = Alive,
           result_url = Some ''https://example.com/1'', result_urls = None\<rparr>"
proof -
  let ?env = "example_platform refreshing_network refreshing_document"
  let ?run = "resolve 3 ?env (URL_href (example_url ''/0'')) None"
  let ?hs = "[HttpRedirect 301 (example_url ''/1''), MetaRedirect (example_url ''/2'')]"
  have a: "deadOrAlive 3 ?env (URL_href (example_url ''/0'')) None =
     Some \<lparr>result_messages = [], result_permanent = Some False, result_status = Alive,
           result_url = Some ''https://example.com/2'', result_urls = None\<rparr>"
    by code_simp
  have b: "map_option (\<lambda>(x, st). visited (history st)) ?run =
     Some [example_url ''/0'', example_url ''/1'', example_url ''/2'']"
    by code_simp
  have c: "map_option (\<lambda>(x, st). hops ?env (followMetaHttpEquiv (initial_state None)) (history st))
      ?run = Some ?hs"
    by code_simp
  have d: "deadOrAlive 2 ?env (URL_href (example_url ''/0''))
      (Some (emptyOptions\<lparr>opt_followMetaHttpEquiv := Some False, opt_findUrls := Some False\<rparr>)) =
     Some \<lparr>result_messages = [], result_permanent = Some True, result_status = Alive,
           result_url = Some ''https://example.com/1'', result_urls = None\<rparr>"
    by code_simp
  from c obtain x st where r: "?run = Some (x, st)"
    and h: "?hs = hops ?env (followMetaHttpEquiv (initial_state None)) (history st)"
    by (cases ?run) auto
  from permanent_follows_redirects
    [of 3 ?env "URL_href (example_url ''/0'')" None x st ?hs] r h
  have "(permanent st = Some False) =
      (\<exists>h \<in> set ?hs.
         (\<exists>v. h = MetaRedirect v) \<or> (\<exists>s v. h = HttpRedirect s v \<and> s \<noteq> 301 \<and> s \<noteq> 308))"
    by blast
  then have "permanent st = Some False" by simp
  with r have e: "map_option (\<lambda>(x, st). permanent st) ?run = Some (Some False)" by simp
  show ?thesis
    using a b c e d by (intro conjI)
qed

subsection \<open>The ceiling on redirects\<close>














subsection \<open>The result of the exported function\<close>

lemma warnings_simps [simp]:
  "warnings (st\<lparr>retries := k\<rparr>) = warnings st"
  "warnings (st\<lparr>urls := x\<rparr>) = warnings st"
  "warnings (record_event e st) = warnings st"
  "warnings (responded st u) = warnings st"
  "warnings (read_body st u r) = warnings st"
  "warnings (push m st) = (warnings st \<and> fatal m = None)"
  by (auto simp: warnings_def)

lemma warnings_redirected: "warnings st \<Longrightarrow> warnings (redirected st u r v)"
  by (auto simp: warnings_def redirected_def Let_def lost_hash_with_redirect_message_def
      new_message_def)

lemma warnings_refreshed: "warnings st \<Longrightarrow> warnings (refreshed st u v)"
  by (auto simp: warnings_def refreshed_def Let_def lost_hash_with_meta_message_def
      new_message_def)

lemma attempt_Again_warnings:
  assumes "attempt env st u = Again st' u'" and "warnings st"
  shows "warnings st'"
  using assms
  by (cases rule: attempt_Again_cases)
     (simp_all add: retry_Again warnings_redirected warnings_refreshed)

lemma sharedDeclarativeRefresh_terminal:
  "sharedDeclarativeRefresh parser input from = Inl e \<Longrightarrow> terminal e"
  by (auto simp: sharedDeclarativeRefresh_def parse_def new_message_def
      split: option.splits sum.splits)

lemma meta_redirect_terminal: "meta_redirect env tree r = Inl e \<Longrightarrow> terminal e"
  by (auto simp: meta_redirect_def sharedDeclarativeRefresh_terminal split: option.splits if_splits)

lemma check_fragment_ends_well: "ends_well (check_fragment env st u r tree)"
  by (simp add: check_fragment_def Let_def missing_anchor_message_def new_message_def)

lemma handleTextHtml_Return_shape:
  assumes "handleTextHtml env st u r = Return (x, st')" and "warnings st"
  shows "warnings st' \<and> ends_well x"
  using assms
  by (cases rule: handleTextHtml_Return_cases)
     (auto simp: meta_redirect_terminal check_fragment_ends_well)

lemma attempt_Return_shape:
  assumes "attempt env st u = Return (x, st')" and "warnings st"
  shows "warnings st' \<and> ends_well x"
  using assms
proof (cases rule: attempt_Return_cases)
  case (content r)
  from content(4) show ?thesis
  proof (cases rule: handle_content_Return_cases)
    case (unknown ct)
    then show ?thesis
      using assms(2) handleUnknown_cases [OF unknown(1)]
      by (auto simp: lost_hash_with_non_html_message_def new_message_def)
  next
    case (bad_media c)
    then show ?thesis using assms(2) by simp
  next
    case html
    then show ?thesis
      using assms(2) handleTextHtml_Return_shape [of env "responded st u" u r x st'] by simp
  qed
qed (use assms(2) in \<open>simp_all add: max_redirect_message_def fetch_message_def dead_message_def
      new_message_def\<close>)

lemma run_shape:
  "warnings st \<Longrightarrow> deadOrAliveInternal calls env st u = Some (x, st') \<Longrightarrow>
   warnings st' \<and> ends_well x"
  by (rule run_invariant [where I = warnings and Q = "\<lambda>x s. warnings s \<and> ends_well x"])
     (auto dest: attempt_Return_shape attempt_Again_warnings)

lemma resolve_shape:
  assumes "resolve calls env target given = Some (x, st)"
  shows "warnings st \<and> ends_well x"
proof -
  have i: "warnings (initial_state given)"
    by (simp add: warnings_def)
  show ?thesis
  proof (cases target)
    case (Text_href input)
    show ?thesis
    proof (cases "new_URL env input None")
      case None
      with assms Text_href i show ?thesis by (auto simp: resolve_def Let_def)
    next
      case (Some u)
      with assms Text_href have "deadOrAliveInternal calls env (initial_state given) u = Some (x, st)"
        by (simp add: resolve_def Let_def)
      with i show ?thesis by (rule run_shape)
    qed
  next
    case (URL_href u)
    with assms have "deadOrAliveInternal calls env (initial_state given) u = Some (x, st)"
      by (simp add: resolve_def Let_def)
    with i show ?thesis by (rule run_shape)
  qed
qed

lemma budget_record_event [simp]: "budget (record_event e st) = budget st"
  by (simp add: budget_def)

lemma budget_retry:
  assumes "int (retries st) < maxRetries st" and "retry st u = Again st' u'"
  shows "budget st' < budget st \<and> maxRetries st' = maxRetries st"
proof -
  from assms(2) have "retries st' = retries st + 1" "maxRetries st' = maxRetries st"
    "maxRedirects st' = maxRedirects st" "redirects st' = redirects st"
    by (simp_all add: retry_Again)
  with assms(1) show ?thesis
    by (simp add: budget_def) linarith
qed

lemma budget_next:
  assumes "\<not> int (redirects st) > maxRedirects st"
    and "redirects st' = redirects st + 1" and "retries st' = 0"
    and "maxRedirects st' = maxRedirects st" and "maxRetries st' = maxRetries st"
  shows "budget st' < budget st"
proof -
  let ?m = "nat (maxRetries st) + 1"
  obtain k where k: "nat (maxRedirects st + 1 - int (redirects st)) = Suc k"
    using assms(1) by (cases "nat (maxRedirects st + 1 - int (redirects st))") auto
  then have k': "nat (maxRedirects st + 1 - int (redirects st + 1)) = k"
    by linarith
  have "budget st' = k * ?m + nat (maxRetries st)"
    using assms k' by (simp add: budget_def)
  also have "\<dots> < Suc k * ?m" by simp
  also have "\<dots> \<le> budget st" using k by (simp add: budget_def)
  finally show ?thesis .
qed

lemma attempt_Again_budget:
  assumes "attempt env st u = Again st' u'" and "maxRetries st \<le> 0 \<or> steady env"
  shows "budget st' < budget st \<and> maxRetries st' = maxRetries st"
proof -
  have le: "\<not> int (redirects st) > maxRedirects st"
    using assms(1) by (auto simp: attempt_too_many)
  from assms(1) show ?thesis
  proof (cases rule: attempt_Again_cases)
    case (retry_rejected error)
    from retry_rejected(2,3) show ?thesis
      using budget_retry [of "record_event (Fetched u) st" u st' u'] by simp
  next
    case (redirect r)
    then show ?thesis using le by (simp add: budget_next)
  next
    case (retry_status r)
    then have "retried r" by (simp add: retried_def)
    with assms(2) retry_status(1,3) show ?thesis
      by (auto simp: steady_def)
  next
    case (refresh r)
    then show ?thesis using le by (simp add: budget_next)
  qed
qed

lemma run_returns:
  "maxRetries st \<le> 0 \<or> steady env \<Longrightarrow> budget st < calls \<Longrightarrow>
   \<exists>ended. deadOrAliveInternal calls env st u = Some ended"
proof (induction calls arbitrary: st u)
  case 0
  then show ?case by simp
next
  case (Suc calls)
  show ?case
  proof (cases "attempt env st u")
    case (Return ended)
    then show ?thesis by simp
  next
    case (Again st1 u1)
    from Again Suc.prems(1) have "budget st1 < budget st \<and> maxRetries st1 = maxRetries st"
      by (rule attempt_Again_budget)
    with Suc.prems have "maxRetries st1 \<le> 0 \<or> steady env" "budget st1 < calls"
      by auto
    then have "\<exists>ended. deadOrAliveInternal calls env st1 u1 = Some ended"
      by (rule Suc.IH)
    with Again show ?thesis by simp
  qed
qed

lemma deadOrAlive_returns:
  assumes "maxRetries (initial_state given) \<le> 0 \<or> steady env"
    and "budget (initial_state given) < calls"
  shows "\<exists>res. deadOrAlive calls env target given = Some res"
proof -
  have "\<exists>ended. resolve calls env target given = Some ended"
  proof (cases target)
    case (Text_href input)
    then show ?thesis
      using run_returns [OF assms] by (cases "new_URL env input None") (simp_all add: resolve_def Let_def)
  next
    case (URL_href u)
    then show ?thesis
      using run_returns [OF assms] by (simp add: resolve_def Let_def)
  qed
  then show ?thesis
    by (auto simp: deadOrAlive_def split: sum.splits)
qed

text \<open>
  What holds of every result of \<^verbatim>\<open>deadOrAlive\<close>: it is alive, with a URL and with
  warnings only, or dead, without a URL and with a first message that is the value caught
  (a fatal message of the package, or an error that the package does not wrap), followed
  by the warnings of the state. And \<^verbatim>\<open>deadOrAlive\<close> returns, within the budget of
  calls, whenever no retries are allowed or no response is a failure that is retried.
\<close>

lemma deadOrAlive_shape:
  "(deadOrAlive calls env target given = Some res \<longrightarrow>
      ((result_status res = Alive \<and> result_url res \<noteq> None
          \<and> (\<forall>m \<in> set (result_messages res). \<exists>w. m = Message w \<and> fatal w = None))
       \<or> (result_status res = Dead \<and> result_url res = None \<and> result_messages res \<noteq> []
          \<and> terminal (hd (result_messages res))
          \<and> (\<forall>m \<in> set (tl (result_messages res)). \<exists>w. m = Message w \<and> fatal w = None)))
      \<and> (\<exists>x st. resolve calls env target given = Some (x, st)
            \<and> result_messages res =
                (case x of Inl c \<Rightarrow> [c] | Inr v \<Rightarrow> []) @ map Message (messages st)))
   \<and> ((maxRetries (initial_state given) \<le> 0 \<or> steady env)
        \<and> budget (initial_state given) < calls \<longrightarrow>
      (\<exists>res. deadOrAlive calls env target given = Some res))"
proof (intro conjI impI)
  assume "deadOrAlive calls env target given = Some res"
  then obtain x st where r: "resolve calls env target given = Some (x, st)"
    and m: "result_messages res = (case x of Inl c \<Rightarrow> [c] | Inr v \<Rightarrow> []) @ map Message (messages st)"
    and s: "result_status res = (case x of Inl c \<Rightarrow> Dead | Inr v \<Rightarrow> Alive)"
    and u: "result_url res = (case x of Inl c \<Rightarrow> None | Inr v \<Rightarrow> Some (href v))"
    by (rule deadOrAlive_resolve)
  from r have w: "warnings st" and e: "ends_well x"
    using resolve_shape by blast+
  from w have ws: "\<forall>m \<in> set (map Message (messages st)). \<exists>w. m = Message w \<and> fatal w = None"
    by (auto simp: warnings_def)
  show "(result_status res = Alive \<and> result_url res \<noteq> None
          \<and> (\<forall>m \<in> set (result_messages res). \<exists>w. m = Message w \<and> fatal w = None))
       \<or> (result_status res = Dead \<and> result_url res = None \<and> result_messages res \<noteq> []
          \<and> terminal (hd (result_messages res))
          \<and> (\<forall>m \<in> set (tl (result_messages res)). \<exists>w. m = Message w \<and> fatal w = None))"
  proof (cases x)
    case (Inl c)
    with m s u e ws show ?thesis by simp
  next
    case (Inr v)
    with m s u ws show ?thesis by simp
  qed
  from r m show "\<exists>x st. resolve calls env target given = Some (x, st)
       \<and> result_messages res = (case x of Inl c \<Rightarrow> [c] | Inr v \<Rightarrow> []) @ map Message (messages st)"
    by blast
next
  assume "(maxRetries (initial_state given) \<le> 0 \<or> steady env)
        \<and> budget (initial_state given) < calls"
  then show "\<exists>res. deadOrAlive calls env target given = Some res"
    using deadOrAlive_returns by blast
qed

text \<open>
  C5, on the code. \<^verbatim>\<open>new URL(location, url)\<close> at line 248 stands in no
  \<^verbatim>\<open>try\<close> block of its own: the \<^verbatim>\<open>TypeError\<close> it throws on a
  \<^verbatim>\<open>location\<close> header that is no URL reaches the \<^verbatim>\<open>catch\<close> of
  \<^verbatim>\<open>deadOrAlive\<close> as it is and becomes the first message of the result, where the
  other failing paths throw a fatal message of the package with the error as its cause.
  For the URL \<^verbatim>\<open>https://example.com/0#x\<close>, from which two redirects lead to a
  response whose \<^verbatim>\<open>location\<close> is \<^verbatim>\<open>https://exa[mple.org/\<close>, the result is dead
  and its messages are that error, which is no message of the package, and then the two
  warnings in the order in which they were pushed.
\<close>

theorem unwrapped_error_is_first_message:
  "new_URL (example_platform misdirecting_network (\<lambda>html. Root []))
      ''https://example.com/0#x'' None =
     Some ((example_url ''/0'')\<lparr>fragment := Some ''x''\<rparr>)
   \<and> deadOrAlive 3 (example_platform misdirecting_network (\<lambda>html. Root []))
       (Text_href ''https://example.com/0#x'') None =
     Some \<lparr>result_messages =
            [Native (InvalidUrl ''https://exa[mple.org/''),
             Message
              \<lparr>reason = ''Unexpected hash in URL `https://example.com/0#x` that redirects to `https://example.com/1#y` losing the hash, remove the hash from the original URL'',
               ruleId = ''lost-hash-with-redirect'',
               source = ''dead-or-alive'',
               message_url = ''https://github.com/wooorm/dead-or-alive#lost-hash-with-redirect'',
               fatal = None,
               cause = None\<rparr>,
             Message
              \<lparr>reason = ''Unexpected hash in URL `https://example.com/1#y` that redirects to `https://example.com/2#z` losing the hash, remove the hash from the original URL'',
               ruleId = ''lost-hash-with-redirect'',
               source = ''dead-or-alive'',
               message_url = ''https://github.com/wooorm/dead-or-alive#lost-hash-with-redirect'',
               fatal = None,
               cause = None\<rparr>],
           result_permanent = Some False,
           result_status = Dead,
           result_url = None,
           result_urls = None\<rparr>"
proof -
  have a: "new_URL (example_platform misdirecting_network (\<lambda>html. Root []))
      ''https://example.com/0#x'' None =
     Some ((example_url ''/0'')\<lparr>fragment := Some ''x''\<rparr>)"
    by code_simp
  have b: "deadOrAlive 3 (example_platform misdirecting_network (\<lambda>html. Root []))
       (Text_href ''https://example.com/0#x'') None =
     Some \<lparr>result_messages =
            [Native (InvalidUrl ''https://exa[mple.org/''),
             Message
              \<lparr>reason = ''Unexpected hash in URL `https://example.com/0#x` that redirects to `https://example.com/1#y` losing the hash, remove the hash from the original URL'',
               ruleId = ''lost-hash-with-redirect'',
               source = ''dead-or-alive'',
               message_url = ''https://github.com/wooorm/dead-or-alive#lost-hash-with-redirect'',
               fatal = None,
               cause = None\<rparr>,
             Message
              \<lparr>reason = ''Unexpected hash in URL `https://example.com/1#y` that redirects to `https://example.com/2#z` losing the hash, remove the hash from the original URL'',
               ruleId = ''lost-hash-with-redirect'',
               source = ''dead-or-alive'',
               message_url = ''https://github.com/wooorm/dead-or-alive#lost-hash-with-redirect'',
               fatal = None,
               cause = None\<rparr>],
           result_permanent = Some False,
           result_status = Dead,
           result_url = None,
           result_urls = None\<rparr>"
    by code_simp
  show ?thesis
    using a b by (intro conjI)
qed

subsection \<open>Failing responses and the ceiling on retries\<close>

lemma retried_without_end:
  assumes "\<forall>n. \<exists>r. fetch env n u = Resolved r \<and> retried r"
  shows "0 < maxRetries st \<Longrightarrow> \<not> int (redirects st) > maxRedirects st \<Longrightarrow>
    deadOrAliveInternal calls env st u = None"
proof (induction calls arbitrary: st)
  case 0
  then show ?case by simp
next
  case (Suc calls)
  from assms obtain r where r: "fetch env (requests (history st)) u = Resolved r" "retried r"
    by blast
  then have "attempt env st u = retry (responded st u) u"
    using Suc.prems attempt_not_ok [of st env u r] by (simp add: retried_def)
  moreover obtain st1 where s: "retry (responded st u) u = Again st1 u"
    "maxRetries st1 = maxRetries st" "redirects st1 = redirects st"
    "maxRedirects st1 = maxRedirects st"
    by (simp add: retry_Again)
  ultimately have "deadOrAliveInternal (Suc calls) env st u = deadOrAliveInternal calls env st1 u"
    by simp
  also have "\<dots> = None"
    using Suc.prems s by (intro Suc.IH) simp_all
  finally show ?case .
qed

text \<open>
  C3, on the code. The retries are reset when a response arrives (line 242), before
  the test \<^verbatim>\<open>state.retries < state.maxRetries\<close> of line 279, which therefore
  always sees \<open>0\<close>. With the default \<^verbatim>\<open>maxRetries\<close> \<open>= 1\<close>: a URL that answers
  every request with status 500 is retried without end, so that \<^verbatim>\<open>deadOrAlive\<close>
  does not return, however many calls are allowed; and a URL that answers 500 three times
  and then 200 is retried three times and found alive.
\<close>

theorem failing_responses_are_retried_without_end:
  "(\<forall>calls. deadOrAlive calls (example_platform failing_network (\<lambda>html. Root []))
       (URL_href (example_url ''/'')) None = None)
   \<and> maxRetries (initial_state None) = 1
   \<and> deadOrAlive 4 (example_platform recovering_network (\<lambda>html. Root []))
       (URL_href (example_url ''/'')) None =
     Some \<lparr>result_messages = [], result_permanent = None, result_status = Alive,
           result_url = Some ''https://example.com/'', result_urls = None\<rparr>
   \<and> map_option (\<lambda>(x, st). length (filter is_pause (history st)))
        (resolve 4 (example_platform recovering_network (\<lambda>html. Root []))
          (URL_href (example_url ''/'')) None) = Some 3"
proof -
  let ?env = "example_platform failing_network (\<lambda>html. Root [])"
  have f: "\<forall>n. \<exists>r. fetch ?env n (example_url ''/'') = Resolved r \<and> retried r"
    by (simp add: example_platform_def failing_network_def example_response_def retried_def
        ok_def has_location_def)
  have m: "maxRetries (initial_state None) = 1"
    by (simp add: initial_state_def emptyOptions_def)
  have r: "\<not> int (redirects (initial_state None)) > maxRedirects (initial_state None)"
    by (simp add: initial_state_def emptyOptions_def)
  have "deadOrAliveInternal calls ?env (initial_state None) (example_url ''/'') = None" for calls
    using f m r by (intro retried_without_end) simp_all
  then have a: "\<forall>calls. deadOrAlive calls ?env (URL_href (example_url ''/'')) None = None"
    by (simp add: deadOrAlive_def resolve_def)
  have b: "deadOrAlive 4 (example_platform recovering_network (\<lambda>html. Root []))
       (URL_href (example_url ''/'')) None =
     Some \<lparr>result_messages = [], result_permanent = None, result_status = Alive,
           result_url = Some ''https://example.com/'', result_urls = None\<rparr>"
    by code_simp
  have c: "map_option (\<lambda>(x, st). length (filter is_pause (history st)))
        (resolve 4 (example_platform recovering_network (\<lambda>html. Root []))
          (URL_href (example_url ''/'')) None) = Some 3"
    by code_simp
  show ?thesis
    using a m b c by (intro conjI)
qed

end
